theory Spec2Isabelle
  imports Complex_Main "HOL-Library.Word"
begin

section \<open>The JavaScript values the ledger handles\<close>

text \<open>
  The ledger of \<^verbatim>\<open>src/blockchain.js\<close> stores plain JavaScript objects. A transaction is
  whatever object the caller hands to \<^verbatim>\<open>createTransaction\<close>, so its three properties
  are modelled as primitive JavaScript values. A number is an IEEE double: the three
  special values are modelled as such, a finite double by the rational it denotes
  (\<open>-0\<close> is not distinguished from \<open>0\<close>; the two are \<open>===\<close> and print alike).
  Strings are lists of code units below 256.
\<close>

datatype jsnum = NaN | PosInf | NegInf | Fin rat

datatype jsval = JUndefined | JNull | JBool bool | JNum jsnum | JStr string

text \<open>
  What the code obtains from the platform and not from this repository is a parameter
  of the model:
  \<^item> \<open>digest\<close>: \<^verbatim>\<open>crypto.subtle.digest('SHA-256', new TextEncoder().encode(message))\<close>,
    the bytes of the digest of a string;
  \<^item> \<open>fround\<close>: the rounding of the exact result of an addition of two finite doubles
    to a double (which may overflow to an infinity);
  \<^item> \<open>number_to_string\<close>: \<^verbatim>\<open>Number::toString\<close> on a finite double;
  \<^item> \<open>string_to_number\<close>: \<^verbatim>\<open>ToNumber\<close> on a string.
\<close>

record runtime =
  digest :: "string \<Rightarrow> 8 word list"
  fround :: "rat \<Rightarrow> jsnum"
  number_to_string :: "rat \<Rightarrow> string"
  string_to_number :: "string \<Rightarrow> jsnum"

subsection \<open>Coercions and operators\<close>

text \<open>\<^verbatim>\<open>!v\<close> is \<open>\<not> truthy v\<close>.\<close>

fun truthy :: "jsval \<Rightarrow> bool" where
  "truthy JUndefined = False"
| "truthy JNull = False"
| "truthy (JBool b) = b"
| "truthy (JNum n) = (n \<noteq> NaN \<and> n \<noteq> Fin 0)"
| "truthy (JStr s) = (s \<noteq> [])"

fun js_typeof :: "jsval \<Rightarrow> string" where
  "js_typeof JUndefined = ''undefined''"
| "js_typeof JNull = ''object''"
| "js_typeof (JBool b) = ''boolean''"
| "js_typeof (JNum n) = ''number''"
| "js_typeof (JStr s) = ''string''"

fun js_ToNumber :: "runtime \<Rightarrow> jsval \<Rightarrow> jsnum" where
  "js_ToNumber rt JUndefined = NaN"
| "js_ToNumber rt JNull = Fin 0"
| "js_ToNumber rt (JBool b) = (if b then Fin 1 else Fin 0)"
| "js_ToNumber rt (JNum n) = n"
| "js_ToNumber rt (JStr s) = string_to_number rt s"

text \<open>The global \<^verbatim>\<open>isNaN(v)\<close> converts its argument to a number first.\<close>

definition js_isNaN :: "runtime \<Rightarrow> jsval \<Rightarrow> bool" where
  "js_isNaN rt v = (js_ToNumber rt v = NaN)"

fun js_num_to_string :: "runtime \<Rightarrow> jsnum \<Rightarrow> string" where
  "js_num_to_string rt NaN = ''NaN''"
| "js_num_to_string rt PosInf = ''Infinity''"
| "js_num_to_string rt NegInf = ''-Infinity''"
| "js_num_to_string rt (Fin r) = number_to_string rt r"

fun js_ToString :: "runtime \<Rightarrow> jsval \<Rightarrow> string" where
  "js_ToString rt JUndefined = ''undefined''"
| "js_ToString rt JNull = ''null''"
| "js_ToString rt (JBool b) = (if b then ''true'' else ''false'')"
| "js_ToString rt (JNum n) = js_num_to_string rt n"
| "js_ToString rt (JStr s) = s"

fun num_neg :: "jsnum \<Rightarrow> jsnum" where
  "num_neg NaN = NaN"
| "num_neg PosInf = NegInf"
| "num_neg NegInf = PosInf"
| "num_neg (Fin r) = Fin (- r)"

text \<open>
  IEEE addition: \<open>NaN\<close> absorbs, opposite infinities give \<open>NaN\<close>, an infinity absorbs a
  finite operand, and the exact sum of two finite doubles is rounded.
\<close>

fun num_add :: "runtime \<Rightarrow> jsnum \<Rightarrow> jsnum \<Rightarrow> jsnum" where
  "num_add rt NaN y = NaN"
| "num_add rt x NaN = NaN"
| "num_add rt PosInf NegInf = NaN"
| "num_add rt NegInf PosInf = NaN"
| "num_add rt PosInf y = PosInf"
| "num_add rt NegInf y = NegInf"
| "num_add rt (Fin a) PosInf = PosInf"
| "num_add rt (Fin a) NegInf = NegInf"
| "num_add rt (Fin a) (Fin b) = fround rt (a + b)"

definition num_sub :: "runtime \<Rightarrow> jsnum \<Rightarrow> jsnum \<Rightarrow> jsnum" where
  "num_sub rt x y = num_add rt x (num_neg y)"

fun is_JStr :: "jsval \<Rightarrow> bool" where
  "is_JStr (JStr s) = True"
| "is_JStr v = False"

text \<open>\<^verbatim>\<open>a - b\<close> converts both operands to numbers.\<close>

definition js_minus :: "runtime \<Rightarrow> jsval \<Rightarrow> jsval \<Rightarrow> jsval" where
  "js_minus rt a b = JNum (num_sub rt (js_ToNumber rt a) (js_ToNumber rt b))"

text \<open>\<^verbatim>\<open>a + b\<close> concatenates when either operand is a string, and adds numbers otherwise.\<close>

definition js_plus :: "runtime \<Rightarrow> jsval \<Rightarrow> jsval \<Rightarrow> jsval" where
  "js_plus rt a b =
     (if is_JStr a \<or> is_JStr b then JStr (js_ToString rt a @ js_ToString rt b)
      else JNum (num_add rt (js_ToNumber rt a) (js_ToNumber rt b)))"

text \<open>\<^verbatim>\<open>a === b\<close>: same type and same value, and \<open>NaN\<close> equals nothing.\<close>

definition js_strict_eq :: "jsval \<Rightarrow> jsval \<Rightarrow> bool" where
  "js_strict_eq a b = (a = b \<and> a \<noteq> JNum NaN)"

subsection \<open>Strings\<close>

definition startsWith :: "string \<Rightarrow> string \<Rightarrow> bool" where
  "startsWith s t = (take (length t) s = t)"

text \<open>\<^verbatim>\<open>'0'.repeat(n)\<close>\<close>

definition repeat :: "string \<Rightarrow> nat \<Rightarrow> string" where
  "repeat s n = concat (replicate n s)"

definition padStart :: "nat \<Rightarrow> char \<Rightarrow> string \<Rightarrow> string" where
  "padStart n c s = replicate (n - length s) c @ s"

text \<open>\<^verbatim>\<open>parts.join(sep)\<close>\<close>

fun join :: "string \<Rightarrow> string list \<Rightarrow> string" where
  "join sep [] = []"
| "join sep [x] = x"
| "join sep (x # y # ys) = x @ sep @ join sep (y # ys)"

definition digit_char :: "nat \<Rightarrow> char" where
  "digit_char d = ''0123456789abcdef'' ! d"

text \<open>
  \<^verbatim>\<open>n.toString(radix)\<close> for a non-negative integer below \<open>10^21\<close>, which JavaScript
  prints in plain positional notation: timestamps from \<^verbatim>\<open>Date.now()\<close>, nonces and bytes.
  The code prints in radix 10 and 16 only; a radix below 2, which JavaScript refuses, is
  given one digit here so that the recursion ends.
\<close>

fun toString_radix :: "nat \<Rightarrow> nat \<Rightarrow> string" where
  "toString_radix radix n =
     (if n < radix \<or> radix < 2 then [digit_char n]
      else toString_radix radix (n div radix) @ [digit_char (n mod radix)])"

declare toString_radix.simps [simp del]

definition nat_to_string :: "nat \<Rightarrow> string" where
  "nat_to_string n = toString_radix 10 n"

section \<open>The hash helper\<close>

text \<open>
  \<^verbatim>\<open>
  async function sha256(message) {
      const msgBuffer = new TextEncoder().encode(message);
      const hashBuffer = await crypto.subtle.digest('SHA-256', msgBuffer);
      const hashArray = Array.from(new Uint8Array(hashBuffer));
      return hashArray.map(b => b.toString(16).padStart(2, '0')).join('');
  }
  \<close>
\<close>

definition sha256 :: "runtime \<Rightarrow> string \<Rightarrow> string" where
  "sha256 rt message =
     join [] (map (\<lambda>b. padStart 2 (CHR ''0'') (toString_radix 16 (unat b))) (digest rt message))"

section \<open>JSON.stringify on a list of transactions\<close>

record transaction =
  tx_from :: jsval
  tx_to :: jsval
  amount :: jsval

text \<open>
  \<^verbatim>\<open>QuoteJSONString\<close>: the quote and the backslash are escaped with a backslash, the
  control characters by their short form or by \<^verbatim>\<open>\u00xx\<close>, every other code unit stands
  for itself.
\<close>

definition json_escape :: "char \<Rightarrow> string" where
  "json_escape c =
     (if c = CHR 0x22 then [CHR 0x5C, CHR 0x22]
      else if c = CHR 0x5C then [CHR 0x5C, CHR 0x5C]
      else if c = CHR 0x08 then [CHR 0x5C, CHR ''b'']
      else if c = CHR 0x09 then [CHR 0x5C, CHR ''t'']
      else if c = CHR 0x0A then [CHR 0x5C, CHR ''n'']
      else if c = CHR 0x0C then [CHR 0x5C, CHR ''f'']
      else if c = CHR 0x0D then [CHR 0x5C, CHR ''r'']
      else if (of_char c :: nat) < 32
        then [CHR 0x5C, CHR ''u'', CHR ''0'', CHR ''0''] @ padStart 2 (CHR ''0'') (toString_radix 16 (of_char c))
      else [c])"

definition json_quote :: "string \<Rightarrow> string" where
  "json_quote s = [CHR 0x22] @ concat (map json_escape s) @ [CHR 0x22]"

text \<open>
  A property whose value is \<^verbatim>\<open>undefined\<close> is left out of the object; a number that is not
  finite is written \<^verbatim>\<open>null\<close>.
\<close>

fun json_value :: "runtime \<Rightarrow> jsval \<Rightarrow> string option" where
  "json_value rt JUndefined = None"
| "json_value rt JNull = Some ''null''"
| "json_value rt (JBool b) = Some (if b then ''true'' else ''false'')"
| "json_value rt (JNum (Fin r)) = Some (number_to_string rt r)"
| "json_value rt (JNum n) = Some ''null''"
| "json_value rt (JStr s) = Some (json_quote s)"

definition json_property :: "runtime \<Rightarrow> string \<Rightarrow> jsval \<Rightarrow> string list" where
  "json_property rt key v =
     (case json_value rt v of None \<Rightarrow> [] | Some text \<Rightarrow> [json_quote key @ '':'' @ text])"

definition json_transaction :: "runtime \<Rightarrow> transaction \<Rightarrow> string" where
  "json_transaction rt tx =
     ''{'' @ join '','' (json_property rt ''from'' (tx_from tx) @ json_property rt ''to'' (tx_to tx)
                          @ json_property rt ''amount'' (amount tx)) @ ''}''"

definition json_transactions :: "runtime \<Rightarrow> transaction list \<Rightarrow> string" where
  "json_transactions rt txs = ''['' @ join '','' (map (json_transaction rt) txs) @ '']''"

section \<open>Block\<close>

text \<open>
  \<^verbatim>\<open>
  class Block {
      constructor(timestamp, transactions, previousHash = '') {
          this.timestamp = timestamp;
          this.transactions = transactions;
          this.previousHash = previousHash;
          this.nonce = 0;
          this.hash = '';
      }
      toHashString() {
          return `${this.previousHash}|${this.timestamp}|${JSON.stringify(this.transactions)}|${this.nonce}`;
      }
  }
  \<close>
  The timestamp is a reading of \<^verbatim>\<open>Date.now()\<close> and the nonce a counter from 0: both are
  non-negative integers.
\<close>

record block =
  timestamp :: nat
  transactions :: "transaction list"
  previousHash :: string
  nonce :: nat
  hash :: string

definition new_Block :: "nat \<Rightarrow> transaction list \<Rightarrow> string \<Rightarrow> block" where
  "new_Block ts txs prev =
     \<lparr>timestamp = ts, transactions = txs, previousHash = prev, nonce = 0, hash = []\<rparr>"

definition toHashString :: "runtime \<Rightarrow> block \<Rightarrow> string" where
  "toHashString rt b =
     previousHash b @ ''|'' @ nat_to_string (timestamp b) @ ''|''
       @ json_transactions rt (transactions b) @ ''|'' @ nat_to_string (nonce b)"

section \<open>Blockchain\<close>

text \<open>
  \<^verbatim>\<open>localStorage\<close> is the browser's. The model keeps, for the one key the ledger uses,
  what \<^verbatim>\<open>JSON.parse(localStorage.getItem('vnc_blockchain'))\<close> would yield: nothing, a text
  from which \<^verbatim>\<open>load\<close> cannot build a chain (the \<^verbatim>\<open>try\<close> block throws), or an object with
  a \<^verbatim>\<open>chain\<close> array of block records and possibly a \<^verbatim>\<open>pending\<close> array. \<open>writable\<close> says
  whether \<^verbatim>\<open>setItem\<close> succeeds (it throws when the quota is exceeded).
\<close>

datatype storage_item = Missing | Garbage | Snapshot "block list" "transaction list option"

record localStorage =
  vnc_blockchain :: storage_item
  writable :: bool

record blockchain =
  chain_list :: "block list"
  pendingTransactions :: "transaction list"
  difficulty :: nat
  miningReward :: jsnum

record world =
  ledger :: blockchain
  storage :: localStorage

datatype error = InvalidTransaction | TypeError

subsection \<open>Persistence\<close>

text \<open>
  What a value is after \<^verbatim>\<open>JSON.stringify\<close> and \<^verbatim>\<open>JSON.parse\<close>: \<open>NaN\<close> and the infinities
  are written as \<^verbatim>\<open>null\<close>; a property that is \<^verbatim>\<open>undefined\<close> is left out and reads as
  \<^verbatim>\<open>undefined\<close> again; everything else comes back as it was.
\<close>

fun json_roundtrip :: "jsval \<Rightarrow> jsval" where
  "json_roundtrip (JNum (Fin r)) = JNum (Fin r)"
| "json_roundtrip (JNum n) = JNull"
| "json_roundtrip v = v"

definition stored_transaction :: "transaction \<Rightarrow> transaction" where
  "stored_transaction tx =
     \<lparr>tx_from = json_roundtrip (tx_from tx), tx_to = json_roundtrip (tx_to tx),
      amount = json_roundtrip (amount tx)\<rparr>"

definition stored_block :: "block \<Rightarrow> block" where
  "stored_block b = b\<lparr>transactions := map stored_transaction (transactions b)\<rparr>"

text \<open>
  \<^verbatim>\<open>
  save() {
      try {
          localStorage.setItem('vnc_blockchain', JSON.stringify({chain: this.chain, pending: this.pendingTransactions}));
      } catch (e) { console.warn('Failed saving chain', e); }
  }
  \<close>
\<close>

definition save :: "world \<Rightarrow> world" where
  "save w =
     (if writable (storage w)
      then w\<lparr>storage := (storage w)\<lparr>vnc_blockchain :=
             Snapshot (map stored_block (chain_list (ledger w)))
                      (Some (map stored_transaction (pendingTransactions (ledger w))))\<rparr>\<rparr>
      else w)"

text \<open>
  \<^verbatim>\<open>
  load() {
      try {
          const raw = localStorage.getItem('vnc_blockchain');
          if (!raw) return;
          const parsed = JSON.parse(raw);
          this.chain = parsed.chain.map(b => Object.assign(new Block(b.timestamp, b.transactions, b.previousHash), {nonce: b.nonce, hash: b.hash}));
          this.pendingTransactions = parsed.pending || [];
      } catch (e) { console.warn('Failed loading chain', e); }
  }
  \<close>
\<close>

definition restore_block :: "block \<Rightarrow> block" where
  "restore_block b = (new_Block (timestamp b) (transactions b) (previousHash b))\<lparr>nonce := nonce b, hash := hash b\<rparr>"

definition load :: "world \<Rightarrow> world" where
  "load w =
     (case vnc_blockchain (storage w) of
        Missing \<Rightarrow> w
      | Garbage \<Rightarrow> w
      | Snapshot c p \<Rightarrow>
          w\<lparr>ledger := (ledger w)\<lparr>chain_list := map restore_block c,
                                   pendingTransactions := (case p of None \<Rightarrow> [] | Some txs \<Rightarrow> txs)\<rparr>\<rparr>)"

subsection \<open>Construction and reset\<close>

text \<open>
  \<^verbatim>\<open>
  createGenesisBlock() {
      const genesis = new Block(Date.now(), [{from: 'genesis', to: 'network', amount: 0}], '0');
      genesis.hash = '0';
      this.chain.push(genesis);
      this.save();
  }
  \<close>
  The reading of \<^verbatim>\<open>Date.now()\<close> is the argument \<open>now\<close>.
\<close>

definition genesis_block :: "nat \<Rightarrow> block" where
  "genesis_block now =
     (new_Block now [\<lparr>tx_from = JStr ''genesis'', tx_to = JStr ''network'', amount = JNum (Fin 0)\<rparr>] ''0'')
       \<lparr>hash := ''0''\<rparr>"

definition createGenesisBlock :: "nat \<Rightarrow> world \<Rightarrow> world" where
  "createGenesisBlock now w =
     save (w\<lparr>ledger := (ledger w)\<lparr>chain_list := chain_list (ledger w) @ [genesis_block now]\<rparr>\<rparr>)"

text \<open>
  \<^verbatim>\<open>
  constructor() {
      this.chain = [];
      this.pendingTransactions = [];
      this.difficulty = 3;
      this.miningReward = 1;
      this.load();
      if (this.chain.length === 0) this.createGenesisBlock();
  }
  \<close>
\<close>

definition new_Blockchain :: "nat \<Rightarrow> localStorage \<Rightarrow> world" where
  "new_Blockchain now st =
     (let w = load \<lparr>ledger = \<lparr>chain_list = [], pendingTransactions = [], difficulty = 3,
                              miningReward = Fin 1\<rparr>,
                    storage = st\<rparr>
      in if length (chain_list (ledger w)) = 0 then createGenesisBlock now w else w)"

text \<open>
  \<^verbatim>\<open>
  reset() {
      localStorage.removeItem('vnc_blockchain');
      this.chain = [];
      this.pendingTransactions = [];
      this.createGenesisBlock();
  }
  \<close>
\<close>

definition reset :: "nat \<Rightarrow> world \<Rightarrow> world" where
  "reset now w =
     createGenesisBlock now
       (w\<lparr>storage := (storage w)\<lparr>vnc_blockchain := Missing\<rparr>,
          ledger := (ledger w)\<lparr>chain_list := [], pendingTransactions := []\<rparr>\<rparr>)"

subsection \<open>Submitting a transaction\<close>

text \<open>
  \<^verbatim>\<open>
  createTransaction(tx) {
      if (!tx.from || !tx.to || typeof tx.amount !== 'number' || isNaN(tx.amount)) throw new Error('Invalid transaction');
      this.pendingTransactions.push(tx);
      this.save();
  }
  \<close>
  The result is the exception thrown, if any, and the world the call leaves behind.
\<close>

definition createTransaction :: "runtime \<Rightarrow> transaction \<Rightarrow> world \<Rightarrow> (error + unit) \<times> world" where
  "createTransaction rt tx w =
     (if \<not> truthy (tx_from tx) \<or> \<not> truthy (tx_to tx) \<or> js_typeof (amount tx) \<noteq> ''number''
           \<or> js_isNaN rt (amount tx)
      then (Inl InvalidTransaction, w)
      else (Inr (),
            save (w\<lparr>ledger := (ledger w)\<lparr>pendingTransactions :=
                                              pendingTransactions (ledger w) @ [tx]\<rparr>\<rparr>)))"

subsection \<open>Mining\<close>

text \<open>\<^verbatim>\<open>latestBlock() { return this.chain[this.chain.length - 1]; }\<close>, \<^verbatim>\<open>undefined\<close> on an empty chain.\<close>

definition latestBlock :: "blockchain \<Rightarrow> block option" where
  "latestBlock l =
     (if length (chain_list l) = 0 then None else Some (chain_list l ! (length (chain_list l) - 1)))"

text \<open>
  \<^verbatim>\<open>block.nonce++\<close> on a double that started at 0: exact up to \<open>2^53\<close>, where adding 1
  rounds back to \<open>2^53\<close>.
\<close>

definition js_increment :: "nat \<Rightarrow> nat" where
  "js_increment n = (if n < 2 ^ 53 then n + 1 else n)"

text \<open>
  \<^verbatim>\<open>
  while (true) {
      const hash = await sha256(block.toHashString());
      if (hash.startsWith(target)) {
          block.hash = hash;
          break;
      }
      block.nonce++;
  }
  \<close>
  The loop has no bound: \<open>None\<close> is the search that never ends.
\<close>

partial_function (option) mine_loop :: "runtime \<Rightarrow> string \<Rightarrow> block \<Rightarrow> block option" where
  "mine_loop rt target blk =
     (if startsWith (sha256 rt (toHashString rt blk)) target
      then Some (blk\<lparr>hash := sha256 rt (toHashString rt blk)\<rparr>)
      else mine_loop rt target (blk\<lparr>nonce := js_increment (nonce blk)\<rparr>))"

text \<open>
  \<^verbatim>\<open>
  async minePendingTransactions(minerAddress) {
      const block = new Block(Date.now(), this.pendingTransactions.slice(), this.latestBlock().hash);
      block.nonce = 0;
      const target = '0'.repeat(this.difficulty);
      ... the loop ...
      this.chain.push(block);
      this.pendingTransactions = [{from: 'network', to: minerAddress, amount: this.miningReward}];
      this.save();
      return block;
  }
  \<close>
  Reading \<^verbatim>\<open>.hash\<close> of the \<^verbatim>\<open>undefined\<close> tip of an empty chain throws a \<^verbatim>\<open>TypeError\<close>.
  The call is modelled as one step: nothing else runs between its \<^verbatim>\<open>await\<close>s.
\<close>

definition minePendingTransactions ::
  "runtime \<Rightarrow> nat \<Rightarrow> jsval \<Rightarrow> world \<Rightarrow> ((error + block) \<times> world) option" where
  "minePendingTransactions rt now minerAddress w =
     (case latestBlock (ledger w) of
        None \<Rightarrow> Some (Inl TypeError, w)
      | Some tip \<Rightarrow>
          (case mine_loop rt (repeat ''0'' (difficulty (ledger w)))
                  ((new_Block now (pendingTransactions (ledger w)) (hash tip))\<lparr>nonce := 0\<rparr>) of
             None \<Rightarrow> None
           | Some b \<Rightarrow>
               Some (Inr b,
                     save (w\<lparr>ledger := (ledger w)\<lparr>
                              chain_list := chain_list (ledger w) @ [b],
                              pendingTransactions :=
                                [\<lparr>tx_from = JStr ''network'', tx_to = minerAddress,
                                  amount = JNum (miningReward (ledger w))\<rparr>]\<rparr>\<rparr>))))"

subsection \<open>Balances\<close>

text \<open>
  \<^verbatim>\<open>
  if (tx.from === address) balance -= tx.amount;
  if (tx.to === address) balance += tx.amount;
  \<close>
\<close>

definition apply_transaction :: "runtime \<Rightarrow> jsval \<Rightarrow> jsval \<Rightarrow> transaction \<Rightarrow> jsval" where
  "apply_transaction rt address balance tx =
     (let balance1 = (if js_strict_eq (tx_from tx) address then js_minus rt balance (amount tx) else balance)
      in if js_strict_eq (tx_to tx) address then js_plus rt balance1 (amount tx) else balance1)"

text \<open>
  \<^verbatim>\<open>
  getBalanceOfAddress(address) {
      let balance = 0;
      for (const block of this.chain) {
          for (const tx of block.transactions) { ... }
      }
      for (const tx of this.pendingTransactions) { ... }
      return balance;
  }
  \<close>
\<close>

definition getBalanceOfAddress :: "runtime \<Rightarrow> blockchain \<Rightarrow> jsval \<Rightarrow> jsval" where
  "getBalanceOfAddress rt l address =
     foldl (apply_transaction rt address)
       (foldl (\<lambda>balance blk. foldl (apply_transaction rt address) balance (transactions blk))
          (JNum (Fin 0)) (chain_list l))
       (pendingTransactions l)"

subsection \<open>Validation\<close>

text \<open>
  \<^verbatim>\<open>
  async isChainValid() {
      for (let i = 1; i < this.chain.length; i++) {
          const current = this.chain[i];
          const previous = this.chain[i - 1];
          const currentHash = await sha256(current.toHashString());
          if (current.hash !== currentHash) return false;
          if (current.previousHash !== previous.hash) return false;
          if (!current.hash.startsWith('0'.repeat(this.difficulty))) return false;
      }
      return true;
  }
  \<close>
\<close>

function isChainValid_from :: "runtime \<Rightarrow> blockchain \<Rightarrow> nat \<Rightarrow> bool" where
  "isChainValid_from rt l i =
     (if i < length (chain_list l)
      then (let current = chain_list l ! i;
                previous = chain_list l ! (i - 1);
                currentHash = sha256 rt (toHashString rt current)
            in if hash current \<noteq> currentHash then False
               else if previousHash current \<noteq> hash previous then False
               else if \<not> startsWith (hash current) (repeat ''0'' (difficulty l)) then False
               else isChainValid_from rt l (i + 1))
      else True)"
  by pat_completeness auto
termination
  by (relation "measure (\<lambda>(rt, l, i). length (chain_list l) - i)") auto

declare isChainValid_from.simps [simp del]

text \<open>The call returns its verdict and the world it leaves behind.\<close>

definition isChainValid :: "runtime \<Rightarrow> world \<Rightarrow> bool \<times> world" where
  "isChainValid rt w = (isChainValid_from rt (ledger w) 1, w)"

section \<open>Notions the properties are stated with\<close>

subsection \<open>Mining and validation\<close>

text \<open>
  The candidate block of a call of \<^verbatim>\<open>minePendingTransactions\<close> at reading \<open>now\<close> of the
  clock, with nonce \<open>n\<close>; whether that nonce seals it, that is, whether its hash starts
  with the target; the candidate with its hash written; and the world the call leaves
  behind when it has sealed the block \<open>b\<close>.
\<close>

definition candidate :: "nat \<Rightarrow> blockchain \<Rightarrow> nat \<Rightarrow> block" where
  "candidate now l n =
     \<lparr>timestamp = now, transactions = pendingTransactions l,
      previousHash = hash (last (chain_list l)), nonce = n, hash = []\<rparr>"

definition seals :: "runtime \<Rightarrow> nat \<Rightarrow> blockchain \<Rightarrow> nat \<Rightarrow> bool" where
  "seals rt now l n =
     startsWith (sha256 rt (toHashString rt (candidate now l n))) (repeat ''0'' (difficulty l))"

definition sealed :: "runtime \<Rightarrow> nat \<Rightarrow> blockchain \<Rightarrow> nat \<Rightarrow> block" where
  "sealed rt now l n = (candidate now l n)\<lparr>hash := sha256 rt (toHashString rt (candidate now l n))\<rparr>"

definition after_mining :: "jsval \<Rightarrow> block \<Rightarrow> world \<Rightarrow> world" where
  "after_mining minerAddress b w =
     save (w\<lparr>ledger := (ledger w)\<lparr>
             chain_list := chain_list (ledger w) @ [b],
             pendingTransactions :=
               [\<lparr>tx_from = JStr ''network'', tx_to = minerAddress, amount = JNum (miningReward (ledger w))\<rparr>]\<rparr>\<rparr>)"

text \<open>
  The click handler of the mine button sets the difficulty before it mines:
  \<^verbatim>\<open>chainApp.difficulty = Math.max(1, Math.min(6, diff))\<close>.
\<close>

definition set_difficulty :: "nat \<Rightarrow> world \<Rightarrow> world" where
  "set_difficulty d w = w\<lparr>ledger := (ledger w)\<lparr>difficulty := d\<rparr>\<rparr>"

text \<open>The three checks \<^verbatim>\<open>isChainValid\<close> makes on the block at index \<open>i\<close>.\<close>

definition passes_checks :: "runtime \<Rightarrow> blockchain \<Rightarrow> nat \<Rightarrow> bool" where
  "passes_checks rt l i =
     (hash (chain_list l ! i) = sha256 rt (toHashString rt (chain_list l ! i))
      \<and> previousHash (chain_list l ! i) = hash (chain_list l ! (i - 1))
      \<and> startsWith (hash (chain_list l ! i)) (repeat ''0'' (difficulty l)))"

subsection \<open>Transactions\<close>

text \<open>
  A finite number, as the specification's data model asks of an amount; a value that JSON
  carries unchanged, which is anything but \<open>NaN\<close> and the infinities; and all the
  transactions of a ledger, those of the blocks in chain order and then the pending ones.
\<close>

fun is_finite_number :: "jsval \<Rightarrow> bool" where
  "is_finite_number (JNum (Fin r)) = True"
| "is_finite_number v = False"

fun json_faithful :: "jsval \<Rightarrow> bool" where
  "json_faithful (JNum NaN) = False"
| "json_faithful (JNum PosInf) = False"
| "json_faithful (JNum NegInf) = False"
| "json_faithful v = True"

definition json_faithful_transaction :: "transaction \<Rightarrow> bool" where
  "json_faithful_transaction tx =
     (json_faithful (tx_from tx) \<and> json_faithful (tx_to tx) \<and> json_faithful (amount tx))"

definition all_transactions :: "blockchain \<Rightarrow> transaction list" where
  "all_transactions l = concat (map transactions (chain_list l)) @ pendingTransactions l"

subsection \<open>Balances\<close>

text \<open>
  The addresses of a ledger, collected as \<^verbatim>\<open>renderChain\<close> collects them into its \<^verbatim>\<open>Set\<close>:
  the \<open>from\<close> and the \<open>to\<close> of every transaction of every block and then of the pending
  queue, each address once, in order of first appearance. The sum of the balances over a
  list of addresses is the loop \<^verbatim>\<open>total = 0; for (a of as) total += balanceOf(a)\<close>.
\<close>

definition addresses :: "blockchain \<Rightarrow> jsval list" where
  "addresses l = rev (remdups (rev (concat (map (\<lambda>tx. [tx_from tx, tx_to tx]) (all_transactions l)))))"

definition sum_of_balances :: "runtime \<Rightarrow> blockchain \<Rightarrow> jsval list \<Rightarrow> jsval" where
  "sum_of_balances rt l as = foldl (js_plus rt) (JNum (Fin 0)) (map (getBalanceOfAddress rt l) as)"

text \<open>
  A plain transaction has strings for \<open>from\<close> and \<open>to\<close> and a whole number for its amount.
  The total magnitude of a list of transactions is the sum of the absolute values of their
  (whole) amounts. A runtime is exact on integers when adding two doubles whose exact sum
  is an integer of magnitude up to \<open>2^53\<close> gives that integer, as IEEE addition does.
  \<open>net a tx\<close> is what a plain transaction adds to the balance of the address \<open>a\<close>.
\<close>

fun whole_part :: "jsval \<Rightarrow> int" where
  "whole_part (JNum (Fin r)) = \<lfloor>r\<rfloor>"
| "whole_part v = 0"

definition plain_transaction :: "transaction \<Rightarrow> bool" where
  "plain_transaction tx =
     (is_JStr (tx_from tx) \<and> is_JStr (tx_to tx) \<and> amount tx = JNum (Fin (of_int (whole_part (amount tx)))))"

definition total_magnitude :: "transaction list \<Rightarrow> int" where
  "total_magnitude txs = sum_list (map (\<lambda>tx. \<bar>whole_part (amount tx)\<bar>) txs)"

definition exact_on_integers :: "runtime \<Rightarrow> bool" where
  "exact_on_integers rt = (\<forall>k::int. \<bar>k\<bar> \<le> 2 ^ 53 \<longrightarrow> fround rt (of_int k) = Fin (of_int k))"

definition net :: "jsval \<Rightarrow> transaction \<Rightarrow> int" where
  "net a tx = (if tx_to tx = a then whole_part (amount tx) else 0)
            - (if tx_from tx = a then whole_part (amount tx) else 0)"

subsection \<open>Fingerprints\<close>

text \<open>
  A standard transaction is one of the specification's data model: strings for \<open>from\<close> and
  \<open>to\<close> and a finite number for its amount. \<open>amount_text\<close> is what \<^verbatim>\<open>JSON.stringify\<close> writes
  for the amount. A runtime prints the amounts of a list of transactions apart when it
  writes each of them with digits, \<open>.\<close>, \<open>e\<close>, \<open>+\<close> and \<open>-\<close> only and writes different
  amounts differently, as \<^verbatim>\<open>Number::toString\<close> does for doubles.
\<close>

definition standard_transaction :: "transaction \<Rightarrow> bool" where
  "standard_transaction tx = (is_JStr (tx_from tx) \<and> is_JStr (tx_to tx) \<and> is_finite_number (amount tx))"

definition amount_text :: "runtime \<Rightarrow> transaction \<Rightarrow> string" where
  "amount_text rt tx = (case json_value rt (amount tx) of None \<Rightarrow> [] | Some text \<Rightarrow> text)"

definition prints_amounts_apart :: "runtime \<Rightarrow> transaction list \<Rightarrow> bool" where
  "prints_amounts_apart rt txs =
     ((\<forall>tx\<in>set txs. set (amount_text rt tx) \<subseteq> set ''0123456789.e+-'')
      \<and> (\<forall>tx\<in>set txs. \<forall>tx'\<in>set txs. amount_text rt tx = amount_text rt tx' \<longrightarrow> amount tx = amount tx'))"

text \<open>
  Two notions for the proof that a fingerprint reads in one way only: a text that goes on
  as the rest of a JSON string, its closing quote and a comma; and a text in which every
  \<open>|\<close> is followed by such a text, that is, stands inside a JSON string that a comma
  follows.
\<close>

definition closes_string :: "string \<Rightarrow> bool" where
  "closes_string B = (\<exists>s rest. B = concat (map json_escape s) @ CHR 0x22 # CHR '','' # rest)"

definition bars_inside_strings :: "string \<Rightarrow> bool" where
  "bars_inside_strings X = (\<forall>A B. X = A @ CHR ''|'' # B \<longrightarrow> closes_string B)"

section \<open>A runtime, transactions, ledgers and blocks for worked examples\<close>

text \<open>
  A stand-in for the platform in the worked examples: the digest is 32 bytes, the first
  the parity of the length of the message and the others 0, so that a hash is
  \<open>00\<close> or \<open>01\<close> followed by 62 zeros; addition is exact; a number is printed as the
  decimal digits of its integer part.
\<close>

definition example_runtime :: runtime where
  "example_runtime =
     \<lparr>digest = (\<lambda>m. of_nat (length m mod 2) # replicate 31 0),
      fround = Fin,
      number_to_string = (\<lambda>r. (if r < 0 then ''-'' else []) @ nat_to_string (nat \<lfloor>\<bar>r\<bar>\<rfloor>)),
      string_to_number = (\<lambda>s. NaN)\<rparr>"

text \<open>
  Transactions: 10 from \<open>a\<close> to \<open>b\<close> and 4 back; the same transfer with the string
  \<open>"10"\<close> for its amount; and a transfer of \<open>Infinity\<close>.
\<close>

definition plain_transfer :: transaction where
  "plain_transfer = \<lparr>tx_from = JStr ''a'', tx_to = JStr ''b'', amount = JNum (Fin 10)\<rparr>"

definition return_transfer :: transaction where
  "return_transfer = \<lparr>tx_from = JStr ''b'', tx_to = JStr ''a'', amount = JNum (Fin 4)\<rparr>"

definition unnumbered_transfer :: transaction where
  "unnumbered_transfer = \<lparr>tx_from = JStr ''a'', tx_to = JStr ''b'', amount = JStr ''10''\<rparr>"

definition infinite_transfer :: transaction where
  "infinite_transfer = \<lparr>tx_from = JStr ''a'', tx_to = JStr ''b'', amount = JNum PosInf\<rparr>"

text \<open>
  Ledgers: the one a first visit constructs, at clock reading 10; that ledger with other
  settings than the constructor's; after \<^verbatim>\<open>createTransaction\<close> has accepted the two
  transfers; and after it has accepted the transfer of \<open>Infinity\<close>.
\<close>

definition empty_storage :: localStorage where
  "empty_storage = \<lparr>vnc_blockchain = Missing, writable = True\<rparr>"

definition fresh_world :: world where
  "fresh_world = new_Blockchain 10 empty_storage"

definition tuned_world :: world where
  "tuned_world = fresh_world\<lparr>ledger := (ledger fresh_world)\<lparr>difficulty := 5, miningReward := Fin 50\<rparr>\<rparr>"

definition two_transfers_world :: world where
  "two_transfers_world =
     snd (createTransaction example_runtime return_transfer
            (snd (createTransaction example_runtime plain_transfer fresh_world)))"

definition infinite_world :: world where
  "infinite_world = snd (createTransaction example_runtime infinite_transfer fresh_world)"

text \<open>
  The fresh ledger after one call of mine at clock reading 11 (the nonce that seals is
  10); and a history of two calls, the first at difficulty 1 and the second at
  difficulty 2.
\<close>

definition mined_world :: world where
  "mined_world =
     after_mining (JStr ''miner'') (sealed example_runtime 11 (ledger fresh_world) 10) fresh_world"

definition easy_block :: block where
  "easy_block = sealed example_runtime 11 (ledger (set_difficulty 1 fresh_world)) 0"

definition easy_world :: world where
  "easy_world = after_mining (JStr ''miner'') easy_block (set_difficulty 1 fresh_world)"

definition harder_block :: block where
  "harder_block = sealed example_runtime 12 (ledger (set_difficulty 2 easy_world)) 0"

definition harder_world :: world where
  "harder_world = after_mining (JStr ''miner'') harder_block (set_difficulty 2 easy_world)"

text \<open>
  Blocks: two that differ only in the sign of an infinite amount, and two that differ
  only in their timestamps.
\<close>

definition lossy_block :: block where
  "lossy_block = new_Block 11 [infinite_transfer] ''0''"

definition lossy_twin :: block where
  "lossy_twin = new_Block 11 [\<lparr>tx_from = JStr ''a'', tx_to = JStr ''b'', amount = JNum NegInf\<rparr>] ''0''"

definition transfer_block :: block where
  "transfer_block = new_Block 11 [plain_transfer, return_transfer] ''0''"

definition later_block :: block where
  "later_block = new_Block 12 [plain_transfer, return_transfer] ''0''"

section \<open>Basic facts\<close>

lemma save_ledger: "ledger (save w) = ledger w"
  by (simp add: save_def)

lemma createGenesisBlock_ledger:
  "ledger (createGenesisBlock now w) =
     (ledger w)\<lparr>chain_list := chain_list (ledger w) @ [genesis_block now]\<rparr>"
  by (simp add: createGenesisBlock_def save_ledger)

lemma load_difficulty: "difficulty (ledger (load w)) = difficulty (ledger w)"
  by (simp add: load_def split: storage_item.splits)

lemma load_miningReward: "miningReward (ledger (load w)) = miningReward (ledger w)"
  by (simp add: load_def split: storage_item.splits)

lemma new_Blockchain_difficulty: "difficulty (ledger (new_Blockchain now st)) = 3"
  by (simp add: new_Blockchain_def Let_def createGenesisBlock_ledger load_difficulty)

lemma new_Blockchain_miningReward: "miningReward (ledger (new_Blockchain now st)) = Fin 1"
  by (simp add: new_Blockchain_def Let_def createGenesisBlock_ledger load_miningReward)

lemma restore_block_id: "restore_block b = b"
  by (simp add: restore_block_def new_Block_def)

lemma fresh_world_ledger:
  "ledger fresh_world =
     \<lparr>chain_list = [genesis_block 10], pendingTransactions = [], difficulty = 3, miningReward = Fin 1\<rparr>"
  by (simp add: fresh_world_def new_Blockchain_def empty_storage_def load_def Let_def
      createGenesisBlock_ledger)

section \<open>Reset\<close>

text \<open>
  C10. After \<^verbatim>\<open>reset()\<close> the chain is exactly one block, the genesis block with
  previousHash \<open>"0"\<close>, hash \<open>"0"\<close>, nonce 0 and the single transaction from \<open>"genesis"\<close> to
  \<open>"network"\<close> of amount 0 (its timestamp is the clock reading of the call), and the queue
  of pending transactions is empty: it holds no reward transaction.
\<close>

theorem reset_leaves_genesis_only:
  "chain_list (ledger (reset now w)) =
     [\<lparr>timestamp = now,
       transactions = [\<lparr>tx_from = JStr ''genesis'', tx_to = JStr ''network'', amount = JNum (Fin 0)\<rparr>],
       previousHash = ''0'', nonce = 0, hash = ''0''\<rparr>]
   \<and> pendingTransactions (ledger (reset now w)) = []"
  by (simp add: reset_def createGenesisBlock_ledger genesis_block_def new_Block_def)

section \<open>Hashes and strings\<close>

lemma join_nil: "join [] xs = concat xs"
  by (induction xs rule: induct_list012) simp_all

lemma toString_radix_16_byte:
  "n < 256 \<Longrightarrow> padStart 2 (CHR ''0'') (toString_radix 16 n) = [digit_char (n div 16), digit_char (n mod 16)]"
proof (cases "n < 16")
  case True
  then show ?thesis by (simp add: toString_radix.simps padStart_def digit_char_def)
next
  case False
  assume "n < 256"
  then have "n div 16 < 16" by simp
  with False show ?thesis
    by (subst toString_radix.simps) (simp add: toString_radix.simps[of 16 "n div 16"] padStart_def)
qed

lemma hex_byte: "padStart 2 (CHR ''0'') (toString_radix 16 (unat (b :: 8 word)))
   = [digit_char (unat b div 16), digit_char (unat b mod 16)]"
proof -
  have "unat b < 256" using unsigned_less[of b] by simp
  then show ?thesis by (rule toString_radix_16_byte)
qed

lemma sha256_concat:
  "sha256 rt m = concat (map (\<lambda>b. [digit_char (unat b div 16), digit_char (unat b mod 16)]) (digest rt m))"
  by (simp add: sha256_def join_nil hex_byte)

lemma sha256_length: "length (sha256 rt m) = 2 * length (digest rt m)"
  by (simp add: sha256_concat length_concat comp_def sum_list_triv)

lemma repeat_zero: "repeat ''0'' n = replicate n (CHR ''0'')"
  by (induction n) (simp_all add: repeat_def)

lemma startsWith_too_long: "length s < length t \<Longrightarrow> \<not> startsWith s t"
  by (auto simp: startsWith_def)

lemma startsWith_replicate: "startsWith (replicate n c) (replicate d c) = (d \<le> n)"
  by (auto simp: startsWith_def min_def dest: arg_cong[where f = length])

lemma startsWith_01:
  "startsWith (CHR ''0'' # CHR ''1'' # xs) (replicate d (CHR ''0'')) = (d \<le> 1)"
proof (cases d)
  case 0
  then show ?thesis by (simp add: startsWith_def)
next
  case (Suc d')
  then show ?thesis by (cases d') (simp_all add: startsWith_def)
qed

lemma sha256_example:
  "sha256 example_runtime m =
     (if even (length m) then replicate 64 (CHR ''0'') else CHR ''0'' # CHR ''1'' # replicate 62 (CHR ''0''))"
proof -
  have z: "concat (replicate n ''00'') = replicate (2 * n) (CHR ''0'')" for n
    by (induction n) simp_all
  have d0: "digit_char 0 = CHR ''0''" and d1: "digit_char (Suc 0) = CHR ''1''"
    by (simp_all add: digit_char_def)
  have tail: "concat (map (\<lambda>b. [digit_char (unat b div 16), digit_char (unat b mod 16)])
                 (replicate 31 (0 :: 8 word))) = replicate 62 (CHR ''0'')"
    using z[of 31] by (simp add: map_replicate_const d0)
  have split: "sha256 example_runtime m =
         [digit_char (unat (of_nat (length m mod 2) :: 8 word) div 16),
          digit_char (unat (of_nat (length m mod 2) :: 8 word) mod 16)] @ replicate 62 (CHR ''0'')"
    unfolding sha256_concat example_runtime_def using tail by simp
  show ?thesis
  proof (cases "even (length m)")
    case True
    then have "length m mod 2 = 0" by presburger
    moreover have "replicate 64 (CHR ''0'') = CHR ''0'' # CHR ''0'' # replicate 62 (CHR ''0'')"
      by (simp add: numeral_eq_Suc)
    ultimately show ?thesis using True by (simp add: split d0)
  next
    case False
    then have "length m mod 2 = 1" by presburger
    then show ?thesis using False by (simp add: split d0 d1)
  qed
qed

lemma nat_to_string_digit: "k < 10 \<Longrightarrow> nat_to_string k = [digit_char k]"
  by (simp add: nat_to_string_def toString_radix.simps[of 10 k])

lemma nat_to_string_two_digits:
  "10 \<le> k \<Longrightarrow> k < 100 \<Longrightarrow> nat_to_string k = [digit_char (k div 10), digit_char (k mod 10)]"
proof -
  assume "10 \<le> k" and "k < 100"
  then have "k div 10 < 10" by simp
  with \<open>10 \<le> k\<close> show ?thesis
    by (simp add: nat_to_string_def toString_radix.simps[of 10 k] toString_radix.simps[of 10 "k div 10"])
qed

section \<open>Mining\<close>

subsection \<open>The nonce search\<close>



lemma mine_loop_reaches:
  assumes "mine_loop rt target blk = Some y"
  shows "nonce blk \<le> 2 ^ 53 \<longrightarrow> (\<exists>k. nonce blk \<le> k \<and> k \<le> 2 ^ 53 \<and> startsWith (sha256 rt (toHashString rt (blk\<lparr>nonce := k\<rparr>))) target)"
  using assms
proof (induction rule: mine_loop.raw_induct[rotated 1, consumes 1])
  case (1 mine_loop' rt target blk y)
  show ?case
  proof (cases "startsWith (sha256 rt (toHashString rt blk)) target")
    case True
    then show ?thesis by (auto intro!: exI[of _ "nonce blk"])
  next
    case False
    with 1(2) have "mine_loop' rt target (blk\<lparr>nonce := js_increment (nonce blk)\<rparr>) = Some y" by simp
    from 1(1)[OF this] show ?thesis
      by (auto simp: js_increment_def split: if_splits intro: Suc_leD)
  qed
qed

lemma mine_loop_finds:
  "n \<le> m \<Longrightarrow> m \<le> 2 ^ 53 \<Longrightarrow>
   startsWith (sha256 rt (toHashString rt (blk\<lparr>nonce := m\<rparr>))) target \<Longrightarrow>
   (\<And>k. n \<le> k \<Longrightarrow> k < m \<Longrightarrow> \<not> startsWith (sha256 rt (toHashString rt (blk\<lparr>nonce := k\<rparr>))) target) \<Longrightarrow>
   mine_loop rt target (blk\<lparr>nonce := n\<rparr>)
     = Some (blk\<lparr>nonce := m, hash := sha256 rt (toHashString rt (blk\<lparr>nonce := m\<rparr>))\<rparr>)"
proof (induction "m - n" arbitrary: n)
  case 0
  then have "n = m" by simp
  with 0 show ?case by (subst mine_loop.simps) simp
next
  case (Suc d)
  then have lt: "n < m" by simp
  with Suc.prems have no: "\<not> startsWith (sha256 rt (toHashString rt (blk\<lparr>nonce := n\<rparr>))) target" by simp
  have inc: "js_increment n = n + 1" using lt Suc.prems(2) by (simp add: js_increment_def)
  have "mine_loop rt target (blk\<lparr>nonce := n + 1\<rparr>)
     = Some (blk\<lparr>nonce := m, hash := sha256 rt (toHashString rt (blk\<lparr>nonce := m\<rparr>))\<rparr>)"
    using Suc.hyps(2) Suc.prems lt by (intro Suc.hyps(1)) auto
  then show ?case using no inc by (subst mine_loop.simps) simp
qed

lemma latestBlock_last: "chain_list l \<noteq> [] \<Longrightarrow> latestBlock l = Some (last (chain_list l))"
  by (simp add: latestBlock_def last_conv_nth)

lemma latestBlock_empty: "chain_list l = [] \<Longrightarrow> latestBlock l = None"
  by (simp add: latestBlock_def)

lemma initial_candidate:
  "(new_Block now (pendingTransactions l) (hash (last (chain_list l))))\<lparr>nonce := 0\<rparr> = candidate now l 0"
  by (simp add: new_Block_def candidate_def)

lemma candidate_nonce_update: "(candidate now l n)\<lparr>nonce := k\<rparr> = candidate now l k"
  by (simp add: candidate_def)

lemma mine_result:
  assumes "chain_list (ledger w) \<noteq> []" and "m \<le> 2 ^ 53" and "seals rt now (ledger w) m"
    and "\<And>k. k < m \<Longrightarrow> \<not> seals rt now (ledger w) k"
  shows "minePendingTransactions rt now addr w
           = Some (Inr (sealed rt now (ledger w) m), after_mining addr (sealed rt now (ledger w) m) w)"
proof -
  have "mine_loop rt (repeat ''0'' (difficulty (ledger w))) ((candidate now (ledger w) 0)\<lparr>nonce := 0\<rparr>)
          = Some ((candidate now (ledger w) 0)\<lparr>nonce := m,
               hash := sha256 rt (toHashString rt ((candidate now (ledger w) 0)\<lparr>nonce := m\<rparr>))\<rparr>)"
    using assms by (intro mine_loop_finds) (simp_all add: candidate_nonce_update seals_def)
  then have "mine_loop rt (repeat ''0'' (difficulty (ledger w))) (candidate now (ledger w) 0)
          = Some (sealed rt now (ledger w) m)"
    by (simp add: candidate_nonce_update sealed_def)
  then show ?thesis
    using assms(1)
    by (simp add: minePendingTransactions_def latestBlock_last initial_candidate after_mining_def)
qed

lemma mine_diverges:
  assumes "chain_list (ledger w) \<noteq> []" and "\<And>k. k \<le> 2 ^ 53 \<Longrightarrow> \<not> seals rt now (ledger w) k"
  shows "minePendingTransactions rt now addr w = None"
proof -
  have "mine_loop rt (repeat ''0'' (difficulty (ledger w))) (candidate now (ledger w) 0) = None"
  proof (cases "mine_loop rt (repeat ''0'' (difficulty (ledger w))) (candidate now (ledger w) 0)")
    case None
    then show ?thesis .
  next
    case (Some y)
    from mine_loop_reaches[OF this] obtain k where "k \<le> 2 ^ 53" "seals rt now (ledger w) k"
      by (auto simp: candidate_nonce_update seals_def candidate_def)
    with assms(2) show ?thesis by blast
  qed
  then show ?thesis
    using assms(1) by (simp add: minePendingTransactions_def latestBlock_last initial_candidate)
qed

lemma mine_returns_cases:
  assumes "minePendingTransactions rt now addr w = Some (r, w')"
  shows "(chain_list (ledger w) = [] \<and> r = Inl TypeError \<and> w' = w)
       \<or> (chain_list (ledger w) \<noteq> [] \<and> (\<exists>b. r = Inr b \<and> w' = after_mining addr b w
             \<and> mine_loop rt (repeat ''0'' (difficulty (ledger w))) (candidate now (ledger w) 0) = Some b))"
proof (cases "chain_list (ledger w) = []")
  case True
  with assms show ?thesis by (simp add: minePendingTransactions_def latestBlock_empty)
next
  case False
  with assms show ?thesis
    by (auto simp: minePendingTransactions_def latestBlock_last initial_candidate after_mining_def
        split: option.splits)
qed

lemma sealed_fields:
  "timestamp (sealed rt now l n) = now" "transactions (sealed rt now l n) = pendingTransactions l"
  "previousHash (sealed rt now l n) = hash (last (chain_list l))" "nonce (sealed rt now l n) = n"
  "hash (sealed rt now l n) = sha256 rt (toHashString rt (candidate now l n))"
  "toHashString rt (sealed rt now l n) = toHashString rt (candidate now l n)"
  by (simp_all add: sealed_def candidate_def toHashString_def)

lemma after_mining_ledger:
  "ledger (after_mining addr b w) =
     (ledger w)\<lparr>chain_list := chain_list (ledger w) @ [b],
                pendingTransactions :=
                  [\<lparr>tx_from = JStr ''network'', tx_to = addr, amount = JNum (miningReward (ledger w))\<rparr>]\<rparr>"
  by (simp add: after_mining_def save_ledger)

subsection \<open>The worked example\<close>

lemma fresh_world_difficulty: "difficulty (ledger fresh_world) = 3"
  by (simp add: fresh_world_ledger)

lemma to_hash_example:
  "toHashString example_runtime (candidate 11 (ledger fresh_world) k) = ''0|11|[]|'' @ nat_to_string k"
  by (simp add: candidate_def fresh_world_ledger genesis_block_def new_Block_def
    toHashString_def json_transactions_def nat_to_string_two_digits digit_char_def)

lemma seals_example_10: "seals example_runtime 11 (ledger fresh_world) 10"
  by (simp add: seals_def to_hash_example sha256_example repeat_zero startsWith_replicate
      fresh_world_difficulty nat_to_string_two_digits)

lemma seals_example_below_10: "k < 10 \<Longrightarrow> \<not> seals example_runtime 11 (ledger fresh_world) k"
  by (simp add: seals_def to_hash_example sha256_example repeat_zero startsWith_01
      fresh_world_difficulty nat_to_string_digit)

lemma fresh_world_chain: "chain_list (ledger fresh_world) = [genesis_block 10]"
  by (simp add: fresh_world_ledger)

lemma seals_needs_short_target:
  assumes "length (digest rt (toHashString rt (candidate now l n))) = 32" and "64 < difficulty l"
  shows "\<not> seals rt now l n"
  unfolding seals_def using assms by (intro startsWith_too_long) (simp add: sha256_length repeat_zero)

lemma digit_char_nonzero: "0 < d \<Longrightarrow> d < 16 \<Longrightarrow> digit_char d \<noteq> CHR ''0''"
proof
  assume a: "0 < d" "d < 16" "digit_char d = CHR ''0''"
  have d: "distinct ''0123456789abcdef''" by simp
  have l: "length ''0123456789abcdef'' = 16" by simp
  have "digit_char d = digit_char 0" using a(3) by (simp add: digit_char_def)
  then have "d = 0"
    unfolding digit_char_def using nth_eq_iff_index_eq[OF d, of d 0] a(2) by (simp only: l)
  with a(1) show False by simp
qed

lemma seals_needs_leading_zero:
  assumes "digest rt (toHashString rt (candidate now l n)) = b # bs" and "16 \<le> unat b"
    and "0 < difficulty l"
  shows "\<not> seals rt now l n"
proof -
  have "unat b < 256" using unsigned_less[of b] by simp
  then have "unat b div 16 < 16" by simp
  moreover have "0 < unat b div 16" using assms(2) by (simp add: div_greater_zero_iff)
  ultimately have c: "digit_char (unat b div 16) \<noteq> CHR ''0''" by (intro digit_char_nonzero)
  obtain d where d: "difficulty l = Suc d" using assms(3) by (cases "difficulty l") simp_all
  show ?thesis
    using c by (simp add: seals_def sha256_concat assms(1) repeat_zero d startsWith_def)
qed

subsection \<open>What a call of mine does\<close>

text \<open>
  On a ledger with a non-empty chain, \<^verbatim>\<open>minePendingTransactions\<close> returns exactly when
  some nonce from 0 to \<open>2^53\<close> seals the candidate, that is, gives it a hash that starts
  with \<open>difficulty\<close> characters \<open>'0'\<close>. It then appends exactly one block: its timestamp is
  the clock reading, its previousHash the hash of the tip at the time of the call, its
  transactions the pending queue at the time of the call, its hash the digest of its own
  fingerprint and starts with the target, and its nonce is the least sealing nonce: the
  search started at 0 and went up by 1 past every nonce that failed. When no nonce up to
  \<open>2^53\<close> seals the candidate, the call never returns.
\<close>

theorem mine_seals_with_least_nonce:
  assumes "chain_list (ledger w) \<noteq> []"
  shows "((\<exists>n\<le>2 ^ 53. seals rt now (ledger w) n) \<longrightarrow>
            (\<exists>b w'. minePendingTransactions rt now minerAddress w = Some (Inr b, w')
               \<and> chain_list (ledger w') = chain_list (ledger w) @ [b]
               \<and> timestamp b = now
               \<and> previousHash b = hash (last (chain_list (ledger w)))
               \<and> transactions b = pendingTransactions (ledger w)
               \<and> startsWith (hash b) (repeat ''0'' (difficulty (ledger w)))
               \<and> hash b = sha256 rt (toHashString rt b)
               \<and> seals rt now (ledger w) (nonce b)
               \<and> (\<forall>k<nonce b. \<not> seals rt now (ledger w) k)))
       \<and> (\<not> (\<exists>n\<le>2 ^ 53. seals rt now (ledger w) n) \<longrightarrow>
            minePendingTransactions rt now minerAddress w = None)"
proof (intro conjI impI)
  assume "\<exists>n\<le>2 ^ 53. seals rt now (ledger w) n"
  then obtain n where n: "n \<le> 2 ^ 53" "seals rt now (ledger w) n" by blast
  define m where "m = (LEAST k. seals rt now (ledger w) k)"
  have m: "seals rt now (ledger w) m" unfolding m_def using n(2) by (rule LeastI)
  have least: "\<not> seals rt now (ledger w) k" if "k < m" for k
    using that unfolding m_def by (rule not_less_Least)
  have "m \<le> n" unfolding m_def using n(2) by (rule Least_le)
  with n(1) have bound: "m \<le> 2 ^ 53" by simp
  let ?b = "sealed rt now (ledger w) m"
  have res: "minePendingTransactions rt now minerAddress w = Some (Inr ?b, after_mining minerAddress ?b w)"
    using assms bound m least by (rule mine_result)
  have "startsWith (hash ?b) (repeat ''0'' (difficulty (ledger w)))"
    using m by (simp add: sealed_fields seals_def)
  with res m least show "\<exists>b w'. minePendingTransactions rt now minerAddress w = Some (Inr b, w')
               \<and> chain_list (ledger w') = chain_list (ledger w) @ [b]
               \<and> timestamp b = now
               \<and> previousHash b = hash (last (chain_list (ledger w)))
               \<and> transactions b = pendingTransactions (ledger w)
               \<and> startsWith (hash b) (repeat ''0'' (difficulty (ledger w)))
               \<and> hash b = sha256 rt (toHashString rt b)
               \<and> seals rt now (ledger w) (nonce b)
               \<and> (\<forall>k<nonce b. \<not> seals rt now (ledger w) k)"
    by (intro exI[of _ ?b] exI[of _ "after_mining minerAddress ?b w"])
       (simp add: sealed_fields after_mining_ledger)
next
  assume "\<not> (\<exists>n\<le>2 ^ 53. seals rt now (ledger w) n)"
  then have "\<not> seals rt now (ledger w) k" if "k \<le> 2 ^ 53" for k using that by blast
  with assms show "minePendingTransactions rt now minerAddress w = None" by (rule mine_diverges)
qed

text \<open>At clock reading 11 on the fresh ledger the nonces 0 to 9 fail and 10 seals.\<close>

theorem mine_seals_with_least_nonce_example:
  "chain_list (ledger fresh_world) \<noteq> []
   \<and> seals example_runtime 11 (ledger fresh_world) 10
   \<and> (\<exists>b w'. minePendingTransactions example_runtime 11 (JStr ''miner'') fresh_world = Some (Inr b, w')
         \<and> chain_list (ledger w') = [genesis_block 10, b] \<and> nonce b = 10
         \<and> hash b = replicate 64 (CHR ''0''))"
proof -
  have ne: "chain_list (ledger fresh_world) \<noteq> []" by (simp add: fresh_world_chain)
  have ex: "\<exists>n\<le>2 ^ 53. seals example_runtime 11 (ledger fresh_world) n"
    using seals_example_10 by (intro exI[of _ 10]) simp
  from mine_seals_with_least_nonce[OF ne, of example_runtime 11 "JStr ''miner''"] ex
  obtain b w' where r: "minePendingTransactions example_runtime 11 (JStr ''miner'') fresh_world = Some (Inr b, w')"
    "chain_list (ledger w') = chain_list (ledger fresh_world) @ [b]"
    "hash b = sha256 example_runtime (toHashString example_runtime b)"
    "timestamp b = 11" "previousHash b = hash (last (chain_list (ledger fresh_world)))"
    "transactions b = pendingTransactions (ledger fresh_world)"
    "seals example_runtime 11 (ledger fresh_world) (nonce b)"
    "\<forall>k<nonce b. \<not> seals example_runtime 11 (ledger fresh_world) k"
    by blast
  have "\<not> nonce b < 10" using r(7) seals_example_below_10 by blast
  moreover have "\<not> 10 < nonce b" using r(8) seals_example_10 by blast
  ultimately have n10: "nonce b = 10" by simp
  have "toHashString example_runtime b = toHashString example_runtime (candidate 11 (ledger fresh_world) 10)"
    using r(4,5,6) n10 by (simp add: toHashString_def candidate_def)
  then have h: "hash b = replicate 64 (CHR ''0'')"
    using r(3) by (simp add: to_hash_example sha256_example nat_to_string_two_digits)
  with ne r(1,2) n10 seals_example_10 show ?thesis by (auto simp: fresh_world_chain)
qed

text \<open>
  Whether a sealing nonce exists is a matter of the digest, which is a parameter of this
  development, and not of the code of \<^verbatim>\<open>minePendingTransactions\<close>. With a digest of 32
  bytes no call returns at a difficulty above 64, and with a digest whose first byte is
  never below 16, so that no hash starts with \<open>'0'\<close>, no call returns at any difficulty
  from 1 on. C1 has the call return on every ledger with a non-empty chain; for SHA-256
  and the difficulties from 1 to 6 that says that every candidate has a sealing nonce up
  to \<open>2^53\<close>, which is neither proved nor refuted here.
\<close>

lemma mine_never_returns_above_64:
  assumes "chain_list (ledger w) \<noteq> []" and "64 < difficulty (ledger w)"
    and "\<And>m. length (digest rt m) = 32"
  shows "minePendingTransactions rt now addr w = None"
proof (rule mine_diverges[OF assms(1)])
  fix k
  show "\<not> seals rt now (ledger w) k"
    using assms(3,2) by (rule seals_needs_short_target)
qed

lemma mine_never_returns_without_leading_zero:
  assumes "chain_list (ledger w) \<noteq> []" and "0 < difficulty (ledger w)"
    and "\<And>m. \<exists>b bs. digest rt m = b # bs \<and> 16 \<le> unat b"
  shows "minePendingTransactions rt now addr w = None"
proof (rule mine_diverges[OF assms(1)])
  fix k
  from assms(3) obtain b bs
    where "digest rt (toHashString rt (candidate now (ledger w) k)) = b # bs" and "16 \<le> unat b"
    by blast
  then show "\<not> seals rt now (ledger w) k"
    using assms(2) by (rule seals_needs_leading_zero)
qed

text \<open>
  C4. Right after \<^verbatim>\<open>minePendingTransactions(minerAddress)\<close> has returned a block, the queue
  of pending transactions holds exactly one transaction, from \<open>"network"\<close> to the miner, of
  amount \<open>miningReward\<close>: whatever was pending before the call is gone from the queue.
\<close>

theorem mine_leaves_only_reward:
  assumes "minePendingTransactions rt now minerAddress w = Some (Inr b, w')"
  shows "pendingTransactions (ledger w') =
           [\<lparr>tx_from = JStr ''network'', tx_to = minerAddress, amount = JNum (miningReward (ledger w))\<rparr>]"
  using mine_returns_cases[OF assms] by (auto simp: after_mining_def save_ledger)

theorem mine_leaves_only_reward_witness:
  "\<exists>b w'. minePendingTransactions example_runtime 11 (JStr ''miner'') fresh_world = Some (Inr b, w')
     \<and> pendingTransactions (ledger w') =
         [\<lparr>tx_from = JStr ''network'', tx_to = JStr ''miner'', amount = JNum (Fin 1)\<rparr>]"
proof -
  have ne: "chain_list (ledger fresh_world) \<noteq> []" by (simp add: fresh_world_chain)
  have r: "minePendingTransactions example_runtime 11 (JStr ''miner'') fresh_world
        = Some (Inr (sealed example_runtime 11 (ledger fresh_world) 10),
                after_mining (JStr ''miner'') (sealed example_runtime 11 (ledger fresh_world) 10) fresh_world)"
    using ne _ seals_example_10 seals_example_below_10 by (rule mine_result) simp
  from mine_leaves_only_reward[OF r] r show ?thesis by (simp add: fresh_world_ledger)
qed

section \<open>Submitting a transaction\<close>

lemma fresh_world_storage:
  "storage fresh_world =
     \<lparr>vnc_blockchain = Snapshot [stored_block (genesis_block 10)] (Some []), writable = True\<rparr>"
  by (simp add: fresh_world_def new_Blockchain_def empty_storage_def load_def Let_def
      createGenesisBlock_def save_def)

text \<open>
  C3, as the code has it. \<^verbatim>\<open>createTransaction(tx)\<close> succeeds exactly when \<^verbatim>\<open>tx.from\<close> and
  \<^verbatim>\<open>tx.to\<close> are truthy (for a string: not empty) and \<^verbatim>\<open>tx.amount\<close> is a number other than
  \<open>NaN\<close>; plus and minus infinity are accepted. On success \<open>tx\<close> is appended to the end of
  the pending queue, which grows by exactly one with the earlier entries in place, and the
  chain, the difficulty and the reward are as before. Otherwise the call throws
  \<open>Invalid transaction\<close> and leaves the ledger and the store as they were.
\<close>

theorem createTransaction_accepts_any_number_but_NaN:
  "(fst (createTransaction rt tx w) = Inr ()) =
      (truthy (tx_from tx) \<and> truthy (tx_to tx) \<and> (\<exists>n. amount tx = JNum n \<and> n \<noteq> NaN))
   \<and> (fst (createTransaction rt tx w) = Inr () \<longrightarrow>
        pendingTransactions (ledger (snd (createTransaction rt tx w))) = pendingTransactions (ledger w) @ [tx]
        \<and> chain_list (ledger (snd (createTransaction rt tx w))) = chain_list (ledger w)
        \<and> difficulty (ledger (snd (createTransaction rt tx w))) = difficulty (ledger w)
        \<and> miningReward (ledger (snd (createTransaction rt tx w))) = miningReward (ledger w))
   \<and> (fst (createTransaction rt tx w) \<noteq> Inr () \<longrightarrow>
        fst (createTransaction rt tx w) = Inl InvalidTransaction \<and> snd (createTransaction rt tx w) = w)"
  by (cases "amount tx") (auto simp: createTransaction_def js_isNaN_def save_ledger)

text \<open>An amount of 10 is accepted and queued; the string \<open>"10"\<close> is refused.\<close>

theorem createTransaction_accepts_any_number_but_NaN_witness:
  "fst (createTransaction example_runtime plain_transfer fresh_world) = Inr ()
   \<and> pendingTransactions (ledger (snd (createTransaction example_runtime plain_transfer fresh_world)))
        = [plain_transfer]
   \<and> fst (createTransaction example_runtime unnumbered_transfer fresh_world) = Inl InvalidTransaction
   \<and> snd (createTransaction example_runtime unnumbered_transfer fresh_world) = fresh_world"
proof -
  have ok: "truthy (tx_from plain_transfer) \<and> truthy (tx_to plain_transfer)
      \<and> (\<exists>n. amount plain_transfer = JNum n \<and> n \<noteq> NaN)"
    by (simp add: plain_transfer_def)
  have bad: "\<not> (truthy (tx_from unnumbered_transfer) \<and> truthy (tx_to unnumbered_transfer)
      \<and> (\<exists>n. amount unnumbered_transfer = JNum n \<and> n \<noteq> NaN))"
    by (simp add: unnumbered_transfer_def)
  from createTransaction_accepts_any_number_but_NaN[of example_runtime plain_transfer fresh_world] ok
  have 1: "fst (createTransaction example_runtime plain_transfer fresh_world) = Inr ()"
    "pendingTransactions (ledger (snd (createTransaction example_runtime plain_transfer fresh_world)))
       = pendingTransactions (ledger fresh_world) @ [plain_transfer]"
    by blast+
  from createTransaction_accepts_any_number_but_NaN[of example_runtime unnumbered_transfer fresh_world] bad
  have 2: "fst (createTransaction example_runtime unnumbered_transfer fresh_world) = Inl InvalidTransaction"
    "snd (createTransaction example_runtime unnumbered_transfer fresh_world) = fresh_world"
    by blast+
  from 1 2 show ?thesis by (simp add: fresh_world_ledger)
qed

text \<open>
  C3 as stated has the call succeed only for a finite amount. The amount \<open>Infinity\<close> is not
  finite, and the transaction is accepted and queued.
\<close>

theorem createTransaction_accepts_infinity_counterexample:
  "truthy (tx_from infinite_transfer) \<and> truthy (tx_to infinite_transfer)
   \<and> \<not> is_finite_number (amount infinite_transfer)
   \<and> fst (createTransaction example_runtime infinite_transfer fresh_world) = Inr ()
   \<and> pendingTransactions (ledger (snd (createTransaction example_runtime infinite_transfer fresh_world)))
        = [infinite_transfer]"
  by (simp add: createTransaction_def infinite_transfer_def js_isNaN_def save_ledger fresh_world_ledger)

section \<open>What is persisted\<close>

text \<open>
  C9. \<^verbatim>\<open>save\<close> writes the chain and the pending queue and nothing else. A ledger
  constructed afterwards, which loads what the store holds, has difficulty 3 and mining
  reward 1 whatever the two fields held when \<^verbatim>\<open>save\<close> ran; when the write succeeded and the
  saved chain was not empty, its chain and queue are the saved ones as JSON carries them.
\<close>

theorem construction_after_save_has_default_settings:
  "vnc_blockchain (storage (save w)) =
     (if writable (storage w)
      then Snapshot (map stored_block (chain_list (ledger w)))
                    (Some (map stored_transaction (pendingTransactions (ledger w))))
      else vnc_blockchain (storage w))
   \<and> difficulty (ledger (new_Blockchain now (storage (save w)))) = 3
   \<and> miningReward (ledger (new_Blockchain now (storage (save w)))) = Fin 1
   \<and> (writable (storage w) \<and> chain_list (ledger w) \<noteq> [] \<longrightarrow>
        chain_list (ledger (new_Blockchain now (storage (save w)))) = map stored_block (chain_list (ledger w))
        \<and> pendingTransactions (ledger (new_Blockchain now (storage (save w))))
             = map stored_transaction (pendingTransactions (ledger w)))"
  by (simp add: new_Blockchain_difficulty new_Blockchain_miningReward)
     (simp add: save_def new_Blockchain_def load_def Let_def restore_block_id)

text \<open>A ledger of difficulty 5 and reward 50 comes back with 3 and 1.\<close>

theorem construction_after_save_has_default_settings_witness:
  "difficulty (ledger tuned_world) = 5 \<and> miningReward (ledger tuned_world) = Fin 50
   \<and> writable (storage tuned_world) \<and> chain_list (ledger tuned_world) \<noteq> []
   \<and> difficulty (ledger (new_Blockchain 20 (storage (save tuned_world)))) = 3
   \<and> miningReward (ledger (new_Blockchain 20 (storage (save tuned_world)))) = Fin 1
   \<and> chain_list (ledger (new_Blockchain 20 (storage (save tuned_world)))) = [genesis_block 10]"
proof -
  have pre: "writable (storage tuned_world) \<and> chain_list (ledger tuned_world) \<noteq> []"
    by (simp add: tuned_world_def fresh_world_storage fresh_world_ledger)
  have g: "map stored_block (chain_list (ledger tuned_world)) = [genesis_block 10]"
    by (simp add: tuned_world_def fresh_world_ledger stored_block_def genesis_block_def new_Block_def
        stored_transaction_def)
  from construction_after_save_has_default_settings[of tuned_world 20] pre g
  show ?thesis by (simp add: tuned_world_def fresh_world_ledger)
qed

section \<open>Validation\<close>

lemma isChainValid_from_step:
  "isChainValid_from rt l i =
     (if i < length (chain_list l) then passes_checks rt l i \<and> isChainValid_from rt l (i + 1) else True)"
  by (subst isChainValid_from.simps) (auto simp: passes_checks_def Let_def)

lemma isChainValid_from_iff:
  "isChainValid_from rt l i = (\<forall>j. i \<le> j \<and> j < length (chain_list l) \<longrightarrow> passes_checks rt l j)"
proof (induction rt l i rule: isChainValid_from.induct)
  case (1 rt l i)
  show ?case
  proof (cases "i < length (chain_list l)")
    case False
    then show ?thesis by (subst isChainValid_from_step) auto
  next
    case True
    show ?thesis
    proof (cases "passes_checks rt l i")
      case False
      then have "\<not> isChainValid_from rt l i"
        using True by (subst isChainValid_from_step) simp
      moreover have "\<not> (\<forall>j. i \<le> j \<and> j < length (chain_list l) \<longrightarrow> passes_checks rt l j)"
        using True False by blast
      ultimately show ?thesis by blast
    next
      case ok: True
      then have "isChainValid_from rt l i = isChainValid_from rt l (i + 1)"
        using True by (subst isChainValid_from_step) simp
      also have "\<dots> = (\<forall>j. i + 1 \<le> j \<and> j < length (chain_list l) \<longrightarrow> passes_checks rt l j)"
        using True ok by (intro "1.IH") (auto simp: passes_checks_def)
      also have "\<dots> = (\<forall>j. i \<le> j \<and> j < length (chain_list l) \<longrightarrow> passes_checks rt l j)"
      proof
        assume a: "\<forall>j. i + 1 \<le> j \<and> j < length (chain_list l) \<longrightarrow> passes_checks rt l j"
        show "\<forall>j. i \<le> j \<and> j < length (chain_list l) \<longrightarrow> passes_checks rt l j"
        proof (intro allI impI)
          fix j assume "i \<le> j \<and> j < length (chain_list l)"
          then consider "j = i" | "i + 1 \<le> j \<and> j < length (chain_list l)" by linarith
          then show "passes_checks rt l j" using ok a by cases blast+
        qed
      next
        assume "\<forall>j. i \<le> j \<and> j < length (chain_list l) \<longrightarrow> passes_checks rt l j"
        then show "\<forall>j. i + 1 \<le> j \<and> j < length (chain_list l) \<longrightarrow> passes_checks rt l j" by simp
      qed
      finally show ?thesis .
    qed
  qed
qed

lemma passes_checks_old:
  "j < length (chain_list (ledger w)) \<Longrightarrow>
     passes_checks rt (ledger (after_mining addr b w)) j = passes_checks rt (ledger w) j"
  by (simp add: passes_checks_def after_mining_ledger nth_append less_imp_diff_less)

lemma passes_checks_new:
  assumes "chain_list (ledger w) \<noteq> []"
    and "hash b = sha256 rt (toHashString rt b)" and "previousHash b = hash (last (chain_list (ledger w)))"
    and "startsWith (hash b) (repeat ''0'' (difficulty (ledger w)))"
  shows "passes_checks rt (ledger (after_mining addr b w)) (length (chain_list (ledger w)))"
  using assms(1) assms(2)[symmetric] assms(3,4)
  by (simp add: passes_checks_def after_mining_ledger nth_append last_conv_nth)

lemma isChainValid_after_mining:
  assumes valid: "isChainValid_from rt (ledger w) 1" and ne: "chain_list (ledger w) \<noteq> []"
    and b: "hash b = sha256 rt (toHashString rt b)" "previousHash b = hash (last (chain_list (ledger w)))"
      "startsWith (hash b) (repeat ''0'' (difficulty (ledger w)))"
  shows "isChainValid_from rt (ledger (after_mining addr b w)) 1"
  unfolding isChainValid_from_iff
proof (intro allI impI)
  fix j assume j: "1 \<le> j \<and> j < length (chain_list (ledger (after_mining addr b w)))"
  show "passes_checks rt (ledger (after_mining addr b w)) j"
  proof (cases "j < length (chain_list (ledger w))")
    case True
    with valid j show ?thesis by (simp add: passes_checks_old isChainValid_from_iff)
  next
    case False
    with j have "j = length (chain_list (ledger w))" by (simp add: after_mining_ledger)
    with passes_checks_new[OF ne b] show ?thesis by simp
  qed
qed

text \<open>
  C2. \<^verbatim>\<open>isChainValid()\<close> returns true if and only if every block at an index \<open>i\<close> from 1
  to the end of the chain has a hash equal to the digest of its own fingerprint, a
  previousHash equal to the hash of the block before it, and a hash that starts with as
  many \<open>'0'\<close> characters as the ledger's difficulty is now; the block at index 0 is not
  checked; and the call changes nothing in the ledger or the store.
\<close>

theorem isChainValid_checks_every_later_block:
  "fst (isChainValid rt w) =
     (\<forall>i. 1 \<le> i \<and> i < length (chain_list (ledger w)) \<longrightarrow>
        hash (chain_list (ledger w) ! i) = sha256 rt (toHashString rt (chain_list (ledger w) ! i))
        \<and> previousHash (chain_list (ledger w) ! i) = hash (chain_list (ledger w) ! (i - 1))
        \<and> startsWith (hash (chain_list (ledger w) ! i)) (repeat ''0'' (difficulty (ledger w))))
   \<and> snd (isChainValid rt w) = w"
  by (simp add: isChainValid_def isChainValid_from_iff passes_checks_def)

lemma sha256_example_length: "length (sha256 example_runtime m) = 64"
  by (simp add: sha256_length example_runtime_def)


lemma fresh_world_valid: "isChainValid_from rt (ledger fresh_world) 1"
  by (simp add: isChainValid_from_iff fresh_world_ledger)

lemma mined_world_ledger:
  "ledger mined_world =
     \<lparr>chain_list = [genesis_block 10, sealed example_runtime 11 (ledger fresh_world) 10],
      pendingTransactions = [\<lparr>tx_from = JStr ''network'', tx_to = JStr ''miner'', amount = JNum (Fin 1)\<rparr>],
      difficulty = 3, miningReward = Fin 1\<rparr>"
  by (simp add: mined_world_def after_mining_ledger fresh_world_ledger)

lemma mined_world_valid: "isChainValid_from example_runtime (ledger mined_world) 1"
  unfolding mined_world_def
proof (rule isChainValid_after_mining)
  show "isChainValid_from example_runtime (ledger fresh_world) 1" by (rule fresh_world_valid)
  show "chain_list (ledger fresh_world) \<noteq> []" by (simp add: fresh_world_chain)
  show "hash (sealed example_runtime 11 (ledger fresh_world) 10)
      = sha256 example_runtime (toHashString example_runtime (sealed example_runtime 11 (ledger fresh_world) 10))"
    by (simp add: sealed_fields)
  show "previousHash (sealed example_runtime 11 (ledger fresh_world) 10)
      = hash (last (chain_list (ledger fresh_world)))"
    by (simp add: sealed_fields)
  show "startsWith (hash (sealed example_runtime 11 (ledger fresh_world) 10))
      (repeat ''0'' (difficulty (ledger fresh_world)))"
    using seals_example_10 by (simp add: sealed_fields seals_def)
qed


text \<open>
  The ledger after one call of mine has a block at index 1, and it passes; the genesis
  block at index 0, whose hash \<open>"0"\<close> is not the digest of its fingerprint, is not asked.
\<close>

theorem isChainValid_checks_every_later_block_witness:
  "(1::nat) \<le> 1 \<and> 1 < length (chain_list (ledger mined_world))
   \<and> hash (chain_list (ledger mined_world) ! 0)
        \<noteq> sha256 example_runtime (toHashString example_runtime (chain_list (ledger mined_world) ! 0))
   \<and> fst (isChainValid example_runtime mined_world)
   \<and> hash (chain_list (ledger mined_world) ! 1) = replicate 64 (CHR ''0'')
   \<and> startsWith (hash (chain_list (ledger mined_world) ! 1)) (repeat ''0'' 3)
   \<and> snd (isChainValid example_runtime mined_world) = mined_world"
proof -
  have v: "fst (isChainValid example_runtime mined_world)"
    using mined_world_valid by (simp add: isChainValid_def)
  have len: "1 < length (chain_list (ledger mined_world))" by (simp add: mined_world_ledger)
  have h: "hash (chain_list (ledger mined_world) ! 1) = replicate 64 (CHR ''0'')"
    by (simp add: mined_world_ledger sealed_fields to_hash_example sha256_example
        nat_to_string_two_digits)
  from isChainValid_checks_every_later_block[of example_runtime mined_world] v len
  have "startsWith (hash (chain_list (ledger mined_world) ! 1)) (repeat ''0'' (difficulty (ledger mined_world)))"
    and "snd (isChainValid example_runtime mined_world) = mined_world"
    by auto
  moreover have "hash (chain_list (ledger mined_world) ! 0)
        \<noteq> sha256 example_runtime (toHashString example_runtime (chain_list (ledger mined_world) ! 0))"
    using sha256_example_length[of "toHashString example_runtime (chain_list (ledger mined_world) ! 0)"]
    by (auto simp: mined_world_ledger genesis_block_def new_Block_def)
  ultimately show ?thesis using v len h by (simp add: mined_world_ledger)
qed

subsection \<open>Validity after mining\<close>




lemma easy_world_ledger:
  "ledger easy_world =
     \<lparr>chain_list = [genesis_block 10, easy_block],
      pendingTransactions = [\<lparr>tx_from = JStr ''network'', tx_to = JStr ''miner'', amount = JNum (Fin 1)\<rparr>],
      difficulty = 1, miningReward = Fin 1\<rparr>"
  by (simp add: easy_world_def after_mining_ledger set_difficulty_def fresh_world_ledger)



lemma harder_world_ledger:
  "ledger harder_world =
     \<lparr>chain_list = [genesis_block 10, easy_block, harder_block],
      pendingTransactions = [\<lparr>tx_from = JStr ''network'', tx_to = JStr ''miner'', amount = JNum (Fin 1)\<rparr>],
      difficulty = 2, miningReward = Fin 1\<rparr>"
  by (simp add: harder_world_def after_mining_ledger set_difficulty_def easy_world_ledger)


section \<open>Save and load\<close>

lemma json_roundtrip_fixed: "(json_roundtrip v = v) = json_faithful v"
proof (cases v)
  case (JNum n)
  then show ?thesis by (cases n) simp_all
qed simp_all

lemma stored_transaction_fixed: "(stored_transaction tx = tx) = json_faithful_transaction tx"
  by (cases tx) (auto simp: stored_transaction_def json_faithful_transaction_def json_roundtrip_fixed)

lemma map_fixed: "(map f xs = xs) = (\<forall>x\<in>set xs. f x = x)"
  by (induction xs) auto

lemma stored_block_fixed:
  "(stored_block b = b) = (\<forall>tx\<in>set (transactions b). json_faithful_transaction tx)"
proof -
  have "(stored_block b = b) = (map stored_transaction (transactions b) = transactions b)"
    by (cases b) (simp add: stored_block_def)
  then show ?thesis by (simp add: map_fixed stored_transaction_fixed)
qed

lemma load_save_ledger:
  "writable (storage w) \<Longrightarrow>
     ledger (load (save w)) =
       (ledger w)\<lparr>chain_list := map stored_block (chain_list (ledger w)),
                  pendingTransactions := map stored_transaction (pendingTransactions (ledger w))\<rparr>"
  by (simp add: save_def load_def restore_block_id)

text \<open>
  C6, as the code has it. When the store takes the write, \<^verbatim>\<open>save\<close> and then \<^verbatim>\<open>load\<close> give
  back the blocks in the same order with the same timestamp, previousHash, nonce and
  hash, the stored nonce and hash taken as they are and not recomputed; and the chain and
  the pending queue come back identical exactly when no \<open>from\<close>, \<open>to\<close> or \<open>amount\<close> in
  them is \<open>NaN\<close> or an infinity (such a value comes back as \<^verbatim>\<open>null\<close>).
\<close>

theorem save_then_load_keeps_what_json_carries:
  assumes "writable (storage w)"
  shows "map (\<lambda>b. (timestamp b, previousHash b, nonce b, hash b)) (chain_list (ledger (load (save w))))
           = map (\<lambda>b. (timestamp b, previousHash b, nonce b, hash b)) (chain_list (ledger w))
       \<and> ((chain_list (ledger (load (save w))) = chain_list (ledger w)
            \<and> pendingTransactions (ledger (load (save w))) = pendingTransactions (ledger w))
          = (\<forall>tx\<in>set (all_transactions (ledger w)). json_faithful_transaction tx))"
proof -
  have "map (\<lambda>b. (timestamp b, previousHash b, nonce b, hash b)) (map stored_block c)
          = map (\<lambda>b. (timestamp b, previousHash b, nonce b, hash b)) c" for c
    by (simp add: stored_block_def comp_def)
  moreover have "(map stored_block (chain_list (ledger w)) = chain_list (ledger w)
       \<and> map stored_transaction (pendingTransactions (ledger w)) = pendingTransactions (ledger w))
      = (\<forall>tx\<in>set (all_transactions (ledger w)). json_faithful_transaction tx)"
    by (auto simp: map_fixed stored_block_fixed stored_transaction_fixed all_transactions_def)
  ultimately show ?thesis using assms by (simp add: load_save_ledger)
qed

lemma genesis_faithful: "tx \<in> set (transactions (genesis_block now)) \<Longrightarrow> json_faithful_transaction tx"
  by (auto simp: genesis_block_def new_Block_def json_faithful_transaction_def)

lemma mined_world_storage: "writable (storage mined_world)"
  by (simp add: mined_world_def after_mining_def save_def fresh_world_storage)

text \<open>The mined ledger, two blocks and a pending reward, comes back identical.\<close>

theorem save_then_load_keeps_what_json_carries_witness:
  "writable (storage mined_world)
   \<and> length (chain_list (ledger mined_world)) = 2
   \<and> chain_list (ledger (load (save mined_world))) = chain_list (ledger mined_world)
   \<and> pendingTransactions (ledger (load (save mined_world))) = pendingTransactions (ledger mined_world)"
proof -
  have f: "\<forall>tx\<in>set (all_transactions (ledger mined_world)). json_faithful_transaction tx"
    by (auto simp: all_transactions_def mined_world_ledger sealed_fields fresh_world_ledger
        json_faithful_transaction_def dest: genesis_faithful)
  from save_then_load_keeps_what_json_carries[OF mined_world_storage] f
  show ?thesis by (simp add: mined_world_storage mined_world_ledger)
qed

lemma infinite_world_ledger:
  "ledger infinite_world =
     \<lparr>chain_list = [genesis_block 10], pendingTransactions = [infinite_transfer], difficulty = 3,
      miningReward = Fin 1\<rparr>"
  by (simp add: infinite_world_def createTransaction_def infinite_transfer_def js_isNaN_def save_ledger
      fresh_world_ledger)

lemma infinite_world_storage: "writable (storage infinite_world)"
  by (simp add: infinite_world_def createTransaction_def infinite_transfer_def js_isNaN_def save_def
      fresh_world_storage)

text \<open>
  C6 as stated holds of every ledger state. The ledger in which \<^verbatim>\<open>createTransaction\<close> has
  queued an amount of \<open>Infinity\<close> comes back with the amount \<^verbatim>\<open>null\<close>.
\<close>

theorem infinity_comes_back_null_counterexample:
  "writable (storage infinite_world)
   \<and> pendingTransactions (ledger infinite_world)
        = [\<lparr>tx_from = JStr ''a'', tx_to = JStr ''b'', amount = JNum PosInf\<rparr>]
   \<and> pendingTransactions (ledger (load (save infinite_world)))
        = [\<lparr>tx_from = JStr ''a'', tx_to = JStr ''b'', amount = JNull\<rparr>]
   \<and> pendingTransactions (ledger (load (save infinite_world)))
        \<noteq> pendingTransactions (ledger infinite_world)"
  by (simp add: infinite_world_storage load_save_ledger infinite_world_ledger stored_transaction_def
      infinite_transfer_def)

section \<open>Balances\<close>

lemma getBalanceOfAddress_fold:
  "getBalanceOfAddress rt l a = foldl (apply_transaction rt a) (JNum (Fin 0)) (all_transactions l)"
proof -
  have blocks: "foldl (\<lambda>balance blk. foldl f balance (transactions blk)) z bs
        = foldl f z (concat (map transactions bs))" for f :: "jsval \<Rightarrow> transaction \<Rightarrow> jsval" and z bs
    by (induction bs arbitrary: z) simp_all
  show ?thesis by (simp add: getBalanceOfAddress_def all_transactions_def blocks)
qed

lemma is_JStr_strict_eq: "is_JStr v \<Longrightarrow> js_strict_eq v a = (v = a)"
  by (cases v) (auto simp: js_strict_eq_def)

lemma apply_plain_transaction:
  assumes "plain_transaction tx" and "exact_on_integers rt"
    and "\<bar>z\<bar> + \<bar>whole_part (amount tx)\<bar> \<le> 2 ^ 53"
  shows "apply_transaction rt a (JNum (Fin (of_int z))) tx = JNum (Fin (of_int (z + net a tx)))"
proof -
  define k where "k = whole_part (amount tx)"
  have amt: "amount tx = JNum (Fin (of_int k))"
    using assms(1) by (simp add: plain_transaction_def k_def)
  have ex: "fround rt (of_int i) = Fin (of_int i)" if "\<bar>i\<bar> \<le> 2 ^ 53" for i :: int
    using assms(2) that by (simp add: exact_on_integers_def)
  have b: "\<bar>z\<bar> \<le> 2 ^ 53" "\<bar>z - k\<bar> \<le> 2 ^ 53" "\<bar>z + k\<bar> \<le> 2 ^ 53"
    using assms(3) by (simp_all add: k_def)
  have minus: "js_minus rt (JNum (Fin (of_int z))) (JNum (Fin (of_int k))) = JNum (Fin (of_int (z - k)))"
    using ex[OF b(2)] by (simp add: js_minus_def num_sub_def)
  have plus: "js_plus rt (JNum (Fin (of_int y))) (JNum (Fin (of_int k))) = JNum (Fin (of_int (y + k)))"
    if "\<bar>y + k\<bar> \<le> 2 ^ 53" for y
    using ex[OF that] by (simp add: js_plus_def)
  have restored: "\<bar>(z - k) + k\<bar> \<le> 2 ^ 53" using b(1) by simp
  from assms(1) have s: "js_strict_eq (tx_from tx) a = (tx_from tx = a)"
    "js_strict_eq (tx_to tx) a = (tx_to tx = a)"
    by (simp_all add: plain_transaction_def is_JStr_strict_eq)
  show ?thesis
    unfolding apply_transaction_def Let_def s amt net_def
    using minus plus[OF b(3)] plus[OF restored] by (simp add: k_def[symmetric] amt)
qed

lemma fold_plain_transactions:
  assumes "exact_on_integers rt"
  shows "\<forall>tx\<in>set txs. plain_transaction tx \<Longrightarrow> \<bar>z\<bar> + total_magnitude txs \<le> 2 ^ 53 \<Longrightarrow>
     foldl (apply_transaction rt a) (JNum (Fin (of_int z))) txs
       = JNum (Fin (of_int (z + sum_list (map (net a) txs))))"
proof (induction txs arbitrary: z)
  case Nil
  then show ?case by simp
next
  case (Cons tx txs)
  have m: "total_magnitude (tx # txs) = \<bar>whole_part (amount tx)\<bar> + total_magnitude txs"
    by (simp add: total_magnitude_def)
  have nonneg: "0 \<le> total_magnitude txs"
    by (auto simp: total_magnitude_def intro!: sum_list_nonneg)
  have step: "apply_transaction rt a (JNum (Fin (of_int z))) tx = JNum (Fin (of_int (z + net a tx)))"
    using Cons.prems m nonneg by (intro apply_plain_transaction assms) auto
  have "\<bar>net a tx\<bar> \<le> \<bar>whole_part (amount tx)\<bar>" by (simp add: net_def)
  then have "\<bar>z + net a tx\<bar> + total_magnitude txs \<le> 2 ^ 53"
    using Cons.prems(2) m by linarith
  with Cons.IH[of "z + net a tx"] Cons.prems(1) step show ?case by (simp add: add.assoc)
qed

lemma balance_of_plain_ledger:
  assumes "exact_on_integers rt" and "\<forall>tx\<in>set (all_transactions l). plain_transaction tx"
    and "total_magnitude (all_transactions l) \<le> 2 ^ 53"
  shows "getBalanceOfAddress rt l a = JNum (Fin (of_int (sum_list (map (net a) (all_transactions l)))))"
  using fold_plain_transactions[OF assms(1,2), of 0 a] assms(3)
  by (simp add: getBalanceOfAddress_fold)

lemma net_over_distinct:
  "distinct as \<Longrightarrow>
     sum_list (map (\<lambda>a. net a tx) as)
       = (if tx_to tx \<in> set as then whole_part (amount tx) else 0)
         - (if tx_from tx \<in> set as then whole_part (amount tx) else 0)"
  by (induction as) (auto simp: net_def)

lemma sum_swap:
  "sum_list (map (\<lambda>a. sum_list (map (net a) txs)) as)
     = sum_list (map (\<lambda>tx. sum_list (map (\<lambda>a. net a tx) as)) txs)"
  by (induction txs) (simp_all add: sum_list_addf)

lemma partial_sum_bounded:
  assumes "distinct as"
  shows "\<bar>sum_list (map (\<lambda>a. sum_list (map (net a) txs)) as)\<bar> \<le> total_magnitude txs"
proof -
  have "\<bar>sum_list (map (\<lambda>tx. sum_list (map (\<lambda>a. net a tx) as)) txs)\<bar>
      \<le> sum_list (map (\<lambda>tx. \<bar>whole_part (amount tx)\<bar>) txs)"
  proof (induction txs)
    case Nil
    then show ?case by simp
  next
    case (Cons tx txs)
    have "\<bar>sum_list (map (\<lambda>a. net a tx) as)\<bar> \<le> \<bar>whole_part (amount tx)\<bar>"
      by (simp add: net_over_distinct[OF assms])
    with Cons show ?case by simp
  qed
  then show ?thesis by (simp add: sum_swap total_magnitude_def)
qed

lemma total_over_all_addresses:
  assumes "distinct as" and "\<forall>tx\<in>set txs. tx_from tx \<in> set as \<and> tx_to tx \<in> set as"
  shows "sum_list (map (\<lambda>a. sum_list (map (net a) txs)) as) = 0"
proof -
  have "sum_list (map (\<lambda>tx. sum_list (map (\<lambda>a. net a tx) as)) txs) = 0"
    using assms(2) by (induction txs) (simp_all add: net_over_distinct[OF assms(1)])
  then show ?thesis by (simp add: sum_swap)
qed

lemma fold_balances:
  assumes "exact_on_integers rt" and "\<forall>tx\<in>set (all_transactions l). plain_transaction tx"
    and "total_magnitude (all_transactions l) \<le> 2 ^ 53"
  shows "distinct (ds @ as) \<Longrightarrow>
     foldl (js_plus rt)
        (JNum (Fin (of_int (sum_list (map (\<lambda>a. sum_list (map (net a) (all_transactions l))) ds)))))
        (map (getBalanceOfAddress rt l) as)
     = JNum (Fin (of_int (sum_list (map (\<lambda>a. sum_list (map (net a) (all_transactions l))) (ds @ as)))))"
proof (induction as arbitrary: ds)
  case Nil
  then show ?case by simp
next
  case (Cons a as)
  let ?D = "\<lambda>a. sum_list (map (net a) (all_transactions l))"
  have d: "distinct (ds @ [a])" and d': "distinct ((ds @ [a]) @ as)" using Cons.prems by auto
  have "\<bar>sum_list (map ?D (ds @ [a]))\<bar> \<le> 2 ^ 53"
    using partial_sum_bounded[OF d, of "all_transactions l"] assms(3) by linarith
  then have "fround rt (of_int (sum_list (map ?D ds) + ?D a)) = Fin (of_int (sum_list (map ?D ds) + ?D a))"
    using assms(1)[unfolded exact_on_integers_def, rule_format, of "sum_list (map ?D ds) + ?D a"] by simp
  then have step: "js_plus rt (JNum (Fin (of_int (sum_list (map ?D ds))))) (getBalanceOfAddress rt l a)
      = JNum (Fin (of_int (sum_list (map ?D (ds @ [a])))))"
    by (simp add: balance_of_plain_ledger[OF assms] js_plus_def)
  show ?case using Cons.IH[OF d'] step by simp
qed

text \<open>
  C5, as the code has it. In a ledger in which every transaction, in the chain and in the
  pending queue, has strings for \<open>from\<close> and \<open>to\<close> and a whole number for its amount, the
  absolute values of the amounts adding up to at most \<open>2^53\<close> (so that every sum the code
  forms is exact), the balances of the addresses that appear in a \<open>from\<close> or \<open>to\<close> field,
  each address taken once and in any order, sum to exactly zero.
\<close>

theorem balances_of_whole_amounts_sum_to_zero:
  assumes "\<forall>tx\<in>set (all_transactions l). plain_transaction tx"
    and "total_magnitude (all_transactions l) \<le> 2 ^ 53"
    and "exact_on_integers rt"
    and "distinct as" and "set as = set (addresses l)"
  shows "sum_of_balances rt l as = JNum (Fin 0)"
proof -
  have cover: "\<forall>tx\<in>set (all_transactions l). tx_from tx \<in> set as \<and> tx_to tx \<in> set as"
    unfolding assms(5) by (auto simp: addresses_def)
  have "sum_of_balances rt l as
      = JNum (Fin (of_int (sum_list (map (\<lambda>a. sum_list (map (net a) (all_transactions l))) as))))"
    using fold_balances[OF assms(3,1,2), of "[]" as] assms(4) by (simp add: sum_of_balances_def)
  then show ?thesis by (simp add: total_over_all_addresses[OF assms(4) cover])
qed

lemma two_transfers_world_ledger:
  "ledger two_transfers_world =
     \<lparr>chain_list = [genesis_block 10], pendingTransactions = [plain_transfer, return_transfer],
      difficulty = 3, miningReward = Fin 1\<rparr>"
  by (simp add: two_transfers_world_def createTransaction_def plain_transfer_def return_transfer_def
      js_isNaN_def save_ledger fresh_world_ledger)

lemma two_transfers_all:
  "all_transactions (ledger two_transfers_world)
     = [\<lparr>tx_from = JStr ''genesis'', tx_to = JStr ''network'', amount = JNum (Fin 0)\<rparr>,
        plain_transfer, return_transfer]"
  by (simp add: all_transactions_def two_transfers_world_ledger genesis_block_def new_Block_def)

lemma fround_example: "fround example_runtime = Fin"
  by (simp add: example_runtime_def)

lemma example_runtime_exact: "exact_on_integers example_runtime"
  by (simp add: exact_on_integers_def example_runtime_def)

text \<open>
  The scenario of the specification: \<open>a\<close> sends 10 to \<open>b\<close> and \<open>b\<close> sends 4 back, before
  any mining. The balance of \<open>a\<close> is \<open>-6\<close>, that of \<open>b\<close> is 6, and the four balances sum to 0.
\<close>

theorem balances_of_whole_amounts_sum_to_zero_witness:
  "list_all plain_transaction (all_transactions (ledger two_transfers_world))
   \<and> total_magnitude (all_transactions (ledger two_transfers_world)) = 14
   \<and> exact_on_integers example_runtime
   \<and> addresses (ledger two_transfers_world) = [JStr ''genesis'', JStr ''network'', JStr ''a'', JStr ''b'']
   \<and> getBalanceOfAddress example_runtime (ledger two_transfers_world) (JStr ''a'') = JNum (Fin (- 6))
   \<and> getBalanceOfAddress example_runtime (ledger two_transfers_world) (JStr ''b'') = JNum (Fin 6)
   \<and> sum_of_balances example_runtime (ledger two_transfers_world) (addresses (ledger two_transfers_world))
        = JNum (Fin 0)"
proof -
  have p: "\<forall>tx\<in>set (all_transactions (ledger two_transfers_world)). plain_transaction tx"
    by (simp add: two_transfers_all plain_transaction_def plain_transfer_def return_transfer_def)
  have m: "total_magnitude (all_transactions (ledger two_transfers_world)) = 14"
    by (simp add: two_transfers_all total_magnitude_def plain_transfer_def return_transfer_def)
  have a: "addresses (ledger two_transfers_world) = [JStr ''genesis'', JStr ''network'', JStr ''a'', JStr ''b'']"
    by (simp add: addresses_def two_transfers_all plain_transfer_def return_transfer_def)
  have d: "distinct (addresses (ledger two_transfers_world))" by (simp add: a)
  have ba: "getBalanceOfAddress example_runtime (ledger two_transfers_world) (JStr ''a'') = JNum (Fin (- 6))"
    by (simp add: getBalanceOfAddress_fold two_transfers_all apply_transaction_def js_strict_eq_def
        js_minus_def js_plus_def num_sub_def plain_transfer_def return_transfer_def example_runtime_def)
  have bb: "getBalanceOfAddress example_runtime (ledger two_transfers_world) (JStr ''b'') = JNum (Fin 6)"
    by (simp add: getBalanceOfAddress_fold two_transfers_all apply_transaction_def js_strict_eq_def
        js_minus_def js_plus_def num_sub_def plain_transfer_def return_transfer_def example_runtime_def)
  have m': "total_magnitude (all_transactions (ledger two_transfers_world)) \<le> 2 ^ 53" by (simp add: m)
  from balances_of_whole_amounts_sum_to_zero[OF p m' example_runtime_exact d refl]
  show ?thesis using p m example_runtime_exact a ba bb by (simp add: list_all_iff)
qed

lemma infinite_world_all:
  "all_transactions (ledger infinite_world)
     = [\<lparr>tx_from = JStr ''genesis'', tx_to = JStr ''network'', amount = JNum (Fin 0)\<rparr>,
        infinite_transfer]"
  by (simp add: all_transactions_def infinite_world_ledger genesis_block_def new_Block_def)

text \<open>
  C5 as stated holds of every ledger state. In the ledger in which \<^verbatim>\<open>createTransaction\<close>
  has queued the transfer of \<open>Infinity\<close> from \<open>a\<close> to \<open>b\<close>, the balance of \<open>a\<close> is \<open>-Infinity\<close>,
  that of \<open>b\<close> is \<open>Infinity\<close>, and the sum of the balances is \<open>NaN\<close>.
\<close>

theorem infinite_balances_sum_to_NaN_counterexample:
  "addresses (ledger infinite_world) = [JStr ''genesis'', JStr ''network'', JStr ''a'', JStr ''b'']
   \<and> getBalanceOfAddress example_runtime (ledger infinite_world) (JStr ''genesis'') = JNum (Fin 0)
   \<and> getBalanceOfAddress example_runtime (ledger infinite_world) (JStr ''network'') = JNum (Fin 0)
   \<and> getBalanceOfAddress example_runtime (ledger infinite_world) (JStr ''a'') = JNum NegInf
   \<and> getBalanceOfAddress example_runtime (ledger infinite_world) (JStr ''b'') = JNum PosInf
   \<and> sum_of_balances example_runtime (ledger infinite_world) (addresses (ledger infinite_world))
        = JNum NaN"
proof -
  have a: "addresses (ledger infinite_world) = [JStr ''genesis'', JStr ''network'', JStr ''a'', JStr ''b'']"
    by (simp add: addresses_def infinite_world_all infinite_transfer_def)
  have b: "getBalanceOfAddress example_runtime (ledger infinite_world) (JStr ''genesis'') = JNum (Fin 0)"
    "getBalanceOfAddress example_runtime (ledger infinite_world) (JStr ''network'') = JNum (Fin 0)"
    "getBalanceOfAddress example_runtime (ledger infinite_world) (JStr ''a'') = JNum NegInf"
    "getBalanceOfAddress example_runtime (ledger infinite_world) (JStr ''b'') = JNum PosInf"
    by (simp_all add: getBalanceOfAddress_fold infinite_world_all apply_transaction_def js_strict_eq_def
        js_minus_def js_plus_def num_sub_def infinite_transfer_def example_runtime_def)
  show ?thesis by (simp add: a b sum_of_balances_def js_plus_def fround_example)
qed

section \<open>The fingerprint of a block\<close>

subsection \<open>Decimal numbers and separators\<close>

lemma digit_char_inj: "i < 16 \<Longrightarrow> j < 16 \<Longrightarrow> digit_char i = digit_char j \<Longrightarrow> i = j"
proof -
  assume a: "i < 16" "j < 16" "digit_char i = digit_char j"
  have d: "distinct ''0123456789abcdef''" by simp
  have l: "length ''0123456789abcdef'' = 16" by simp
  from a show ?thesis
    unfolding digit_char_def using nth_eq_iff_index_eq[OF d, of i j] by (simp only: l)
qed

lemma digit_char_decimal: "d < 10 \<Longrightarrow> digit_char d \<in> set ''0123456789''"
proof -
  assume "d < 10"
  then have "d \<in> {0, 1, 2, 3, 4, 5, 6, 7, 8, 9}" by auto
  then show ?thesis by (auto simp: digit_char_def)
qed

lemma toString_radix_nonempty: "toString_radix radix n \<noteq> []"
  by (subst toString_radix.simps) simp

lemma nat_to_string_chars: "set (nat_to_string n) \<subseteq> set ''0123456789''"
  unfolding nat_to_string_def
proof (induction n rule: less_induct)
  case (less n)
  show ?case
  proof (cases "n < 10")
    case True
    then show ?thesis
      using digit_char_decimal[of n] by (subst toString_radix.simps) simp
  next
    case False
    then have "n div 10 < n" by simp
    from less[OF this] digit_char_decimal[of "n mod 10"] False show ?thesis
      by (subst toString_radix.simps) simp
  qed
qed

lemma nat_to_string_inj: "nat_to_string n = nat_to_string m \<Longrightarrow> n = m"
  unfolding nat_to_string_def
proof (induction n arbitrary: m rule: less_induct)
  case (less n)
  have one: "toString_radix 10 k = [digit_char k]" if "k < 10" for k
    using that by (subst toString_radix.simps) simp
  have more: "toString_radix 10 k = toString_radix 10 (k div 10) @ [digit_char (k mod 10)]"
    if "\<not> k < 10" for k
    using that by (subst toString_radix.simps) simp
  show ?case
  proof (cases "n < 10")
    case n: True
    show ?thesis
    proof (cases "m < 10")
      case True
      with n less.prems have "digit_char n = digit_char m" by (simp add: one)
      moreover have "n < 16" "m < 16" using n True by simp_all
      ultimately show ?thesis by (intro digit_char_inj)
    next
      case False
      with n less.prems toString_radix_nonempty[of 10 "m div 10"] show ?thesis
        by (simp add: one more)
    qed
  next
    case n: False
    show ?thesis
    proof (cases "m < 10")
      case True
      with n less.prems toString_radix_nonempty[of 10 "n div 10"] show ?thesis
        by (simp add: one more)
    next
      case False
      with n less.prems have e: "toString_radix 10 (n div 10) = toString_radix 10 (m div 10)"
        and d: "digit_char (n mod 10) = digit_char (m mod 10)"
        by (simp_all add: more)
      from n have "n div 10 < n" by simp
      from less.IH[OF this e] have q: "n div 10 = m div 10" .
      have "n mod 10 = m mod 10" using d by (intro digit_char_inj) simp_all
      with q show ?thesis by (metis div_mult_mod_eq)
    qed
  qed
qed

lemma first_separator:
  "c \<notin> set ds \<Longrightarrow> c \<notin> set es \<Longrightarrow> ds @ c # X = es @ c # Y \<Longrightarrow> ds = es \<and> X = Y"
proof (induction ds arbitrary: es)
  case Nil
  then show ?case by (cases es) auto
next
  case (Cons d ds)
  then show ?case by (cases es) auto
qed

lemma last_separator:
  assumes "xs @ c # ds = ys @ c # es" and "c \<notin> set ds" and "c \<notin> set es"
  shows "xs = ys \<and> ds = es"
proof -
  from assms(1) have "rev (xs @ c # ds) = rev (ys @ c # es)" by simp
  then have "rev ds @ c # rev xs = rev es @ c # rev ys" by simp
  moreover have "c \<notin> set (rev ds)" "c \<notin> set (rev es)" using assms(2,3) by simp_all
  ultimately have "rev ds = rev es \<and> rev xs = rev ys" by (intro first_separator)
  then show ?thesis by simp
qed

subsection \<open>Escaped strings\<close>

lemma json_escape_shape:
  "json_escape c =
     (if c = CHR 0x22 then [CHR 0x5C, CHR 0x22]
      else if c = CHR 0x5C then [CHR 0x5C, CHR 0x5C]
      else if c = CHR 0x08 then [CHR 0x5C, CHR ''b'']
      else if c = CHR 0x09 then [CHR 0x5C, CHR ''t'']
      else if c = CHR 0x0A then [CHR 0x5C, CHR ''n'']
      else if c = CHR 0x0C then [CHR 0x5C, CHR ''f'']
      else if c = CHR 0x0D then [CHR 0x5C, CHR ''r'']
      else if (of_char c :: nat) < 32
        then [CHR 0x5C, CHR ''u'', CHR ''0'', CHR ''0'',
              digit_char (of_char c div 16), digit_char (of_char c mod 16)]
      else [c])"
proof -
  have "(of_char c :: nat) < 256" by simp
  then show ?thesis by (simp add: json_escape_def toString_radix_16_byte)
qed

lemma json_escape_head:
  "json_escape c = x # xs \<Longrightarrow> x \<noteq> CHR 0x5C \<Longrightarrow> x = c \<and> xs = [] \<and> c \<noteq> CHR 0x22"
  by (auto simp: json_escape_shape split: if_splits)

lemma json_escape_nonempty: "json_escape c \<noteq> []"
  by (simp add: json_escape_shape)

lemma of_char_from_digits:
  assumes "(of_char c1 :: nat) < 32" "(of_char c2 :: nat) < 32"
    and "digit_char (of_char c1 div 16) = digit_char (of_char c2 div 16)"
    and "digit_char (of_char c1 mod 16) = digit_char (of_char c2 mod 16)"
  shows "c1 = c2"
proof -
  have "(of_char c1 :: nat) div 16 = of_char c2 div 16"
    using assms(1,2) by (intro digit_char_inj[OF _ _ assms(3)]) simp_all
  moreover have "(of_char c1 :: nat) mod 16 = of_char c2 mod 16"
    by (intro digit_char_inj[OF _ _ assms(4)]) simp_all
  ultimately have "(of_char c1 :: nat) = of_char c2" by (metis div_mult_mod_eq)
  then show ?thesis by simp
qed

lemma json_escape_prefix_free:
  "json_escape c1 @ X = json_escape c2 @ Y \<Longrightarrow> c1 = c2 \<and> X = Y"
  by (auto simp: json_escape_shape split: if_splits dest: of_char_from_digits)

subsection \<open>Where a bar can stand in the JSON text\<close>

lemma closes_string_append: "closes_string B \<Longrightarrow> closes_string (B @ Y)"
  unfolding closes_string_def by (metis append.assoc append_Cons)

lemma split_at:
  assumes "X @ Y = A @ c # B"
  shows "(\<exists>B1. X = A @ c # B1 \<and> B = B1 @ Y) \<or> (\<exists>A2. A = X @ A2 \<and> Y = A2 @ c # B)"
proof -
  from assms obtain us where "(X = A @ us \<and> us @ Y = c # B) \<or> (X @ us = A \<and> Y = us @ c # B)"
    by (auto simp: append_eq_append_conv2)
  then show ?thesis
  proof
    assume a: "X = A @ us \<and> us @ Y = c # B"
    show ?thesis
    proof (cases us)
      case Nil
      with a show ?thesis by auto
    next
      case (Cons u us')
      with a show ?thesis by auto
    qed
  next
    assume "X @ us = A \<and> Y = us @ c # B"
    then show ?thesis by auto
  qed
qed

lemma bars_append:
  assumes "bars_inside_strings X" and "bars_inside_strings Y"
  shows "bars_inside_strings (X @ Y)"
  unfolding bars_inside_strings_def
proof (intro allI impI)
  fix A B assume "X @ Y = A @ CHR ''|'' # B"
  from split_at[OF this] show "closes_string B"
  proof
    assume "\<exists>B1. X = A @ CHR ''|'' # B1 \<and> B = B1 @ Y"
    then obtain B1 where "X = A @ CHR ''|'' # B1" "B = B1 @ Y" by blast
    with assms(1) show ?thesis by (auto simp: bars_inside_strings_def intro: closes_string_append)
  next
    assume "\<exists>A2. A = X @ A2 \<and> Y = A2 @ CHR ''|'' # B"
    with assms(2) show ?thesis by (auto simp: bars_inside_strings_def)
  qed
qed

lemma bars_free: "CHR ''|'' \<notin> set X \<Longrightarrow> bars_inside_strings X"
  by (auto simp: bars_inside_strings_def)

lemma digit_char_hex: "d < 16 \<Longrightarrow> digit_char d \<in> set ''0123456789abcdef''"
  unfolding digit_char_def by (rule nth_mem) simp

lemma bar_in_escape: "CHR ''|'' \<in> set (json_escape c) \<Longrightarrow> c = CHR ''|'' \<and> json_escape c = [CHR ''|'']"
proof -
  have d: "digit_char d \<noteq> CHR ''|''" if "d < 16" for d
    using digit_char_hex[OF that] by auto
  have "(of_char c :: nat) < 256" by simp
  then have "(of_char c :: nat) div 16 < 16" "(of_char c :: nat) mod 16 < 16"
    by arith+
  with d have "digit_char (of_char c div 16) \<noteq> CHR ''|''" "digit_char (of_char c mod 16) \<noteq> CHR ''|''"
    by blast+
  then show "CHR ''|'' \<in> set (json_escape c) \<Longrightarrow> c = CHR ''|'' \<and> json_escape c = [CHR ''|'']"
    by (auto simp: json_escape_shape split: if_splits)
qed

lemma escape_after_bar:
  "concat (map json_escape s) = A @ CHR ''|'' # B \<Longrightarrow> \<exists>s2. B = concat (map json_escape s2)"
proof (induction s arbitrary: A)
  case Nil
  then show ?case by simp
next
  case (Cons c s)
  then have "json_escape c @ concat (map json_escape s) = A @ CHR ''|'' # B" by simp
  from split_at[OF this] show ?case
  proof
    assume "\<exists>B1. json_escape c = A @ CHR ''|'' # B1 \<and> B = B1 @ concat (map json_escape s)"
    then obtain B1 where b: "json_escape c = A @ CHR ''|'' # B1" "B = B1 @ concat (map json_escape s)"
      by blast
    then have "CHR ''|'' \<in> set (json_escape c)" by simp
    from bar_in_escape[OF this] b(1) have "B1 = []" by (cases A) auto
    with b(2) show ?thesis by auto
  next
    assume "\<exists>A2. A = json_escape c @ A2 \<and> concat (map json_escape s) = A2 @ CHR ''|'' # B"
    then show ?thesis using Cons.IH by blast
  qed
qed

lemma bars_quote_comma: "bars_inside_strings (json_quote s @ '','')"
  unfolding bars_inside_strings_def
proof (intro allI impI)
  fix A B assume a: "json_quote s @ '','' = A @ CHR ''|'' # B"
  show "closes_string B"
  proof (cases A)
    case Nil
    with a show ?thesis by (simp add: json_quote_def)
  next
    case (Cons q A')
    with a have "concat (map json_escape s) @ [CHR 0x22, CHR '',''] = A' @ CHR ''|'' # B"
      by (auto simp: json_quote_def)
    from split_at[OF this] show ?thesis
    proof
      assume "\<exists>B1. concat (map json_escape s) = A' @ CHR ''|'' # B1 \<and> B = B1 @ [CHR 0x22, CHR '','']"
      then obtain B1 where b: "concat (map json_escape s) = A' @ CHR ''|'' # B1"
        "B = B1 @ [CHR 0x22, CHR '','']" by blast
      from escape_after_bar[OF b(1)] b(2) show ?thesis by (auto simp: closes_string_def)
    next
      assume "\<exists>A2. A' = concat (map json_escape s) @ A2 \<and> [CHR 0x22, CHR '',''] = A2 @ CHR ''|'' # B"
      then obtain A2 where "[CHR 0x22, CHR '',''] = A2 @ CHR ''|'' # B" by blast
      then have "CHR ''|'' \<in> set [CHR 0x22, CHR '','']" by (metis in_set_conv_decomp)
      then show ?thesis by simp
    qed
  qed
qed

lemma json_quote_key:
  "json_quote ''from'' = CHR 0x22 # ''from'' @ [CHR 0x22]"
  "json_quote ''to'' = CHR 0x22 # ''to'' @ [CHR 0x22]"
  "json_quote ''amount'' = CHR 0x22 # ''amount'' @ [CHR 0x22]"
  by (simp_all add: json_quote_def json_escape_shape)

lemma standard_transaction_shape:
  assumes "standard_transaction tx"
  obtains f t where "tx_from tx = JStr f" and "tx_to tx = JStr t"
    and "json_transaction rt tx =
           CHR ''{'' # CHR 0x22 # ''from'' @ [CHR 0x22, CHR '':''] @ (json_quote f @ '','')
             @ CHR 0x22 # ''to'' @ [CHR 0x22, CHR '':''] @ (json_quote t @ '','')
             @ CHR 0x22 # ''amount'' @ [CHR 0x22, CHR '':''] @ amount_text rt tx @ ''}''"
proof -
  from assms obtain f where f: "tx_from tx = JStr f"
    by (cases "tx_from tx") (simp_all add: standard_transaction_def)
  from assms obtain t where t: "tx_to tx = JStr t"
    by (cases "tx_to tx") (simp_all add: standard_transaction_def)
  from assms obtain r where r: "amount tx = JNum (Fin r)"
    by (cases "amount tx" rule: is_finite_number.cases) (simp_all add: standard_transaction_def)
  have "json_transaction rt tx =
           CHR ''{'' # CHR 0x22 # ''from'' @ [CHR 0x22, CHR '':''] @ (json_quote f @ '','')
             @ CHR 0x22 # ''to'' @ [CHR 0x22, CHR '':''] @ (json_quote t @ '','')
             @ CHR 0x22 # ''amount'' @ [CHR 0x22, CHR '':''] @ amount_text rt tx @ ''}''"
    by (simp add: json_transaction_def json_property_def f t r json_quote_key amount_text_def)
  with f t show ?thesis by (rule that)
qed

lemma bars_transaction:
  assumes "standard_transaction tx" and "CHR ''|'' \<notin> set (amount_text rt tx)"
  shows "bars_inside_strings (json_transaction rt tx)"
proof -
  from assms(1) obtain f t where
    shape: "json_transaction rt tx =
           (CHR ''{'' # CHR 0x22 # ''from'' @ [CHR 0x22, CHR '':'']) @ (json_quote f @ '','')
             @ (CHR 0x22 # ''to'' @ [CHR 0x22, CHR '':'']) @ (json_quote t @ '','')
             @ (CHR 0x22 # ''amount'' @ [CHR 0x22, CHR '':''] @ amount_text rt tx @ ''}'')"
    by (rule standard_transaction_shape[where rt = rt]) simp
  show ?thesis
    unfolding shape
    using assms(2) by (intro bars_append bars_quote_comma bars_free) simp_all
qed

lemma join_Cons: "join sep (x # xs) = (if xs = [] then x else x @ sep @ join sep xs)"
  by (cases xs) simp_all

lemma bars_join:
  assumes "\<forall>tx\<in>set txs. standard_transaction tx \<and> CHR ''|'' \<notin> set (amount_text rt tx)"
  shows "bars_inside_strings (join '','' (map (json_transaction rt) txs))"
  using assms
proof (induction txs)
  case Nil
  then show ?case by (simp add: bars_free)
next
  case (Cons tx txs)
  then have 1: "bars_inside_strings (json_transaction rt tx)"
    and 2: "bars_inside_strings (join '','' (map (json_transaction rt) txs))"
    by (simp_all add: bars_transaction)
  have 3: "bars_inside_strings '',''" by (simp add: bars_free)
  have "bars_inside_strings (json_transaction rt tx @ '','' @ join '','' (map (json_transaction rt) txs))"
    by (intro bars_append 1 2 3)
  with 1 show ?case by (simp add: join_Cons)
qed

lemma bars_transactions:
  assumes "\<forall>tx\<in>set txs. standard_transaction tx \<and> CHR ''|'' \<notin> set (amount_text rt tx)"
  shows "bars_inside_strings (json_transactions rt txs)"
proof -
  have a: "bars_inside_strings ''[''" and b: "bars_inside_strings '']''"
    by (simp_all add: bars_free)
  show ?thesis
    unfolding json_transactions_def by (intro bars_append a b bars_join[OF assms])
qed

lemma json_transactions_head:
  assumes "\<forall>tx\<in>set txs. standard_transaction tx"
  shows "json_transactions rt txs = ''[]''
       \<or> (\<exists>rest. json_transactions rt txs = CHR ''['' # CHR ''{'' # CHR 0x22 # CHR ''f'' # rest)"
proof (cases txs)
  case Nil
  then show ?thesis by (simp add: json_transactions_def)
next
  case (Cons tx txs')
  with assms have "standard_transaction tx" by simp
  then obtain f t where "json_transaction rt tx =
           CHR ''{'' # CHR 0x22 # ''from'' @ [CHR 0x22, CHR '':''] @ (json_quote f @ '','')
             @ CHR 0x22 # ''to'' @ [CHR 0x22, CHR '':''] @ (json_quote t @ '','')
             @ CHR 0x22 # ''amount'' @ [CHR 0x22, CHR '':''] @ amount_text rt tx @ ''}''"
    by (rule standard_transaction_shape[where rt = rt])
  with Cons show ?thesis by (simp add: json_transactions_def join_Cons)
qed

lemma escaped_text_head:
  assumes "concat (map json_escape s) @ R = x # rest" and "x \<noteq> CHR 0x5C" and "s \<noteq> []"
  shows "\<exists>s'. s = x # s' \<and> x \<noteq> CHR 0x22 \<and> concat (map json_escape s') @ R = rest"
proof -
  from assms(3) obtain c s' where s: "s = c # s'" by (cases s) auto
  obtain y ys where e: "json_escape c = y # ys" using json_escape_nonempty[of c] by (cases "json_escape c") auto
  with assms(1) s have "y = x" by simp
  with json_escape_head[OF e] assms(2) have "x = c" "ys = []" "c \<noteq> CHR 0x22" by auto
  with assms(1) s e show ?thesis by simp
qed

lemma closes_string_not_transactions:
  assumes "\<forall>tx\<in>set txs. standard_transaction tx"
  shows "\<not> closes_string (json_transactions rt txs)"
proof
  assume "closes_string (json_transactions rt txs)"
  then obtain s R where c: "json_transactions rt txs = concat (map json_escape s) @ CHR 0x22 # CHR '','' # R"
    by (auto simp: closes_string_def)
  from json_transactions_head[OF assms, of rt] show False
  proof
    assume e: "json_transactions rt txs = ''[]''"
    show False
    proof (cases s)
      case Nil
      with c e show False by simp
    next
      case (Cons a s')
      with c e have "concat (map json_escape s) @ (CHR 0x22 # CHR '','' # R) = CHR ''['' # '']''" by simp
      from escaped_text_head[OF this] Cons obtain s1 where
        "concat (map json_escape s1) @ (CHR 0x22 # CHR '','' # R) = '']''" by auto
      then have "length (concat (map json_escape s1) @ (CHR 0x22 # CHR '','' # R)) = 1" by simp
      then show False by simp
    qed
  next
    assume "\<exists>rest. json_transactions rt txs = CHR ''['' # CHR ''{'' # CHR 0x22 # CHR ''f'' # rest"
    then obtain rest where h: "json_transactions rt txs = CHR ''['' # CHR ''{'' # CHR 0x22 # CHR ''f'' # rest"
      by blast
    let ?R = "CHR 0x22 # CHR '','' # R"
    have 0: "concat (map json_escape s) @ ?R = CHR ''['' # CHR ''{'' # CHR 0x22 # CHR ''f'' # rest"
      using c h by simp
    have s0: "s \<noteq> []" using 0 by auto
    from escaped_text_head[OF 0 _ s0] obtain s1 where
      1: "concat (map json_escape s1) @ ?R = CHR ''{'' # CHR 0x22 # CHR ''f'' # rest" by auto
    have s1: "s1 \<noteq> []" using 1 by auto
    from escaped_text_head[OF 1 _ s1] obtain s2 where
      2: "concat (map json_escape s2) @ ?R = CHR 0x22 # CHR ''f'' # rest" by auto
    show False
    proof (cases "s2 = []")
      case True
      with 2 show False by simp
    next
      case False
      from escaped_text_head[OF 2 _ False] show False by auto
    qed
  qed
qed

lemma transactions_not_after_bar:
  assumes "\<forall>tx\<in>set txs1. standard_transaction tx \<and> CHR ''|'' \<notin> set (amount_text rt tx)"
    and "\<forall>tx\<in>set txs2. standard_transaction tx"
  shows "json_transactions rt txs1 \<noteq> Z @ CHR ''|'' # json_transactions rt txs2"
proof
  assume "json_transactions rt txs1 = Z @ CHR ''|'' # json_transactions rt txs2"
  with bars_transactions[OF assms(1)] have "closes_string (json_transactions rt txs2)"
    by (auto simp: bars_inside_strings_def)
  with closes_string_not_transactions[OF assms(2)] show False by blast
qed

subsection \<open>The JSON text determines the transactions\<close>

lemma escaped_text_prefix_free:
  "concat (map json_escape s1) @ CHR 0x22 # X = concat (map json_escape s2) @ CHR 0x22 # Y
     \<Longrightarrow> s1 = s2 \<and> X = Y"
proof (induction s1 arbitrary: s2)
  case Nil
  show ?case
  proof (cases "s2 = []")
    case True
    with Nil show ?thesis by simp
  next
    case False
    from Nil have "concat (map json_escape s2) @ (CHR 0x22 # Y) = CHR 0x22 # X" by simp
    from escaped_text_head[OF this _ False] show ?thesis by auto
  qed
next
  case (Cons c s1)
  show ?case
  proof (cases s2)
    case Nil
    with Cons.prems have "concat (map json_escape (c # s1)) @ (CHR 0x22 # X) = CHR 0x22 # Y" by simp
    from escaped_text_head[OF this] show ?thesis by auto
  next
    case (Cons c2 s2')
    with Cons.prems have "json_escape c @ (concat (map json_escape s1) @ CHR 0x22 # X)
        = json_escape c2 @ (concat (map json_escape s2') @ CHR 0x22 # Y)" by simp
    from json_escape_prefix_free[OF this] Cons.IH[of s2'] Cons show ?thesis by auto
  qed
qed

lemma json_quote_prefix_free: "json_quote s1 @ X = json_quote s2 @ Y \<Longrightarrow> s1 = s2 \<and> X = Y"
  using escaped_text_prefix_free[of s1 X s2 Y] by (simp add: json_quote_def)

lemma transaction_text_prefix_free:
  assumes "standard_transaction tx1" and "standard_transaction tx2"
    and "CHR ''}'' \<notin> set (amount_text rt tx1)" and "CHR ''}'' \<notin> set (amount_text rt tx2)"
    and "amount_text rt tx1 = amount_text rt tx2 \<longrightarrow> amount tx1 = amount tx2"
    and "json_transaction rt tx1 @ X = json_transaction rt tx2 @ Y"
  shows "tx1 = tx2 \<and> X = Y"
proof -
  from assms(1) obtain f1 t1 where 1: "tx_from tx1 = JStr f1" "tx_to tx1 = JStr t1"
    "json_transaction rt tx1 =
           CHR ''{'' # CHR 0x22 # ''from'' @ [CHR 0x22, CHR '':''] @ (json_quote f1 @ '','')
             @ CHR 0x22 # ''to'' @ [CHR 0x22, CHR '':''] @ (json_quote t1 @ '','')
             @ CHR 0x22 # ''amount'' @ [CHR 0x22, CHR '':''] @ amount_text rt tx1 @ ''}''"
    by (rule standard_transaction_shape[where rt = rt])
  from assms(2) obtain f2 t2 where 2: "tx_from tx2 = JStr f2" "tx_to tx2 = JStr t2"
    "json_transaction rt tx2 =
           CHR ''{'' # CHR 0x22 # ''from'' @ [CHR 0x22, CHR '':''] @ (json_quote f2 @ '','')
             @ CHR 0x22 # ''to'' @ [CHR 0x22, CHR '':''] @ (json_quote t2 @ '','')
             @ CHR 0x22 # ''amount'' @ [CHR 0x22, CHR '':''] @ amount_text rt tx2 @ ''}''"
    by (rule standard_transaction_shape[where rt = rt])
  let ?R1 = "'','' @ CHR 0x22 # ''to'' @ [CHR 0x22, CHR '':''] @ json_quote t1 @ '',''
             @ CHR 0x22 # ''amount'' @ [CHR 0x22, CHR '':''] @ amount_text rt tx1 @ ''}'' @ X"
  let ?R2 = "'','' @ CHR 0x22 # ''to'' @ [CHR 0x22, CHR '':''] @ json_quote t2 @ '',''
             @ CHR 0x22 # ''amount'' @ [CHR 0x22, CHR '':''] @ amount_text rt tx2 @ ''}'' @ Y"
  from assms(6) have "json_quote f1 @ ?R1 = json_quote f2 @ ?R2"
    unfolding 1(3) 2(3) by simp
  from json_quote_prefix_free[OF this] have f: "f1 = f2" and r: "?R1 = ?R2" by blast+
  let ?S1 = "'','' @ CHR 0x22 # ''amount'' @ [CHR 0x22, CHR '':''] @ amount_text rt tx1 @ ''}'' @ X"
  let ?S2 = "'','' @ CHR 0x22 # ''amount'' @ [CHR 0x22, CHR '':''] @ amount_text rt tx2 @ ''}'' @ Y"
  from r have "json_quote t1 @ ?S1 = json_quote t2 @ ?S2" by simp
  from json_quote_prefix_free[OF this] have t: "t1 = t2" and s: "?S1 = ?S2" by blast+
  from s have "amount_text rt tx1 @ CHR ''}'' # X = amount_text rt tx2 @ CHR ''}'' # Y" by simp
  from first_separator[OF assms(3,4) this] have a: "amount_text rt tx1 = amount_text rt tx2" and "X = Y"
    by blast+
  from a assms(5) have "amount tx1 = amount tx2" by blast
  with f t 1(1,2) 2(1,2) have "tx1 = tx2" by (intro transaction.equality) simp_all
  with \<open>X = Y\<close> show ?thesis by blast
qed

lemma transaction_text_starts:
  "standard_transaction tx \<Longrightarrow> \<exists>rest. json_transaction rt tx = CHR ''{'' # rest"
  by (erule standard_transaction_shape[where rt = rt]) simp

lemma transactions_text_inj_aux:
  assumes "\<forall>tx\<in>set (txs1 @ txs2). standard_transaction tx \<and> CHR ''}'' \<notin> set (amount_text rt tx)"
    and "\<forall>tx\<in>set (txs1 @ txs2). \<forall>tx'\<in>set (txs1 @ txs2).
           amount_text rt tx = amount_text rt tx' \<longrightarrow> amount tx = amount tx'"
  shows "join '','' (map (json_transaction rt) txs1) @ CHR '']'' # X
           = join '','' (map (json_transaction rt) txs2) @ CHR '']'' # Y \<Longrightarrow> txs1 = txs2"
  using assms
proof (induction txs1 arbitrary: txs2)
  case Nil
  show ?case
  proof (cases txs2)
    case Nil
    then show ?thesis by simp
  next
    case (Cons tx r)
    with Nil.prems(2) have "standard_transaction tx" by simp
    from transaction_text_starts[OF this, of rt] Nil.prems(1) Cons show ?thesis
      by (auto simp: join_Cons split: if_splits)
  qed
next
  case (Cons tx1 r1)
  show ?case
  proof (cases txs2)
    case Nil
    from Cons.prems(2) have "standard_transaction tx1" by simp
    from transaction_text_starts[OF this, of rt] Cons.prems(1) Nil show ?thesis
      by (auto simp: join_Cons split: if_splits)
  next
    case c2: (Cons tx2 r2)
    let ?T1 = "(if r1 = [] then [] else '','' @ join '','' (map (json_transaction rt) r1)) @ CHR '']'' # X"
    let ?T2 = "(if r2 = [] then [] else '','' @ join '','' (map (json_transaction rt) r2)) @ CHR '']'' # Y"
    have j: "join '','' (map f (x # xs)) @ R = f x @ (if xs = [] then [] else '','' @ join '','' (map f xs)) @ R"
      for f :: "transaction \<Rightarrow> string" and x xs R
      by (cases xs) simp_all
    from Cons.prems(1) have e: "json_transaction rt tx1 @ ?T1 = json_transaction rt tx2 @ ?T2"
      unfolding c2 j .
    have m1: "tx1 \<in> set ((tx1 # r1) @ txs2)" and m2: "tx2 \<in> set ((tx1 # r1) @ txs2)"
      using c2 by simp_all
    have "tx1 = tx2 \<and> ?T1 = ?T2"
    proof (rule transaction_text_prefix_free[OF _ _ _ _ _ e])
      show "standard_transaction tx1" "standard_transaction tx2"
        "CHR ''}'' \<notin> set (amount_text rt tx1)" "CHR ''}'' \<notin> set (amount_text rt tx2)"
        using Cons.prems(2) m1 m2 by blast+
      show "amount_text rt tx1 = amount_text rt tx2 \<longrightarrow> amount tx1 = amount tx2"
        using Cons.prems(3) m1 m2 by blast
    qed
    then have tx: "tx1 = tx2" and T: "?T1 = ?T2" by blast+
    have "r1 = r2"
    proof (cases "r1 = []")
      case True
      with T show ?thesis by (cases "r2 = []") auto
    next
      case False
      with T have r2: "r2 \<noteq> []" by (cases "r2 = []") auto
      with False T have "join '','' (map (json_transaction rt) r1) @ CHR '']'' # X
           = join '','' (map (json_transaction rt) r2) @ CHR '']'' # Y" by simp
      moreover have sub: "set (r1 @ r2) \<subseteq> set ((tx1 # r1) @ txs2)"
        using c2 by auto
      moreover have "\<forall>tx\<in>set (r1 @ r2). standard_transaction tx \<and> CHR ''}'' \<notin> set (amount_text rt tx)"
        using Cons.prems(2) sub by (meson subsetD)
      moreover have "\<forall>tx\<in>set (r1 @ r2). \<forall>tx'\<in>set (r1 @ r2).
           amount_text rt tx = amount_text rt tx' \<longrightarrow> amount tx = amount tx'"
        using Cons.prems(3) sub by (meson subsetD)
      ultimately show ?thesis by (intro Cons.IH)
    qed
    with tx c2 show ?thesis by simp
  qed
qed

lemma transactions_text_inj:
  assumes "\<forall>tx\<in>set (txs1 @ txs2). standard_transaction tx"
    and "prints_amounts_apart rt (txs1 @ txs2)"
    and "json_transactions rt txs1 = json_transactions rt txs2"
  shows "txs1 = txs2"
proof -
  have "\<forall>tx\<in>set (txs1 @ txs2). standard_transaction tx \<and> CHR ''}'' \<notin> set (amount_text rt tx)"
    using assms(1,2) unfolding prints_amounts_apart_def by auto
  moreover have "\<forall>tx\<in>set (txs1 @ txs2). \<forall>tx'\<in>set (txs1 @ txs2).
           amount_text rt tx = amount_text rt tx' \<longrightarrow> amount tx = amount tx'"
    using assms(2) unfolding prints_amounts_apart_def by blast
  moreover from assms(3) have "join '','' (map (json_transaction rt) txs1) @ CHR '']'' # []
           = join '','' (map (json_transaction rt) txs2) @ CHR '']'' # []"
    by (simp add: json_transactions_def)
  ultimately show ?thesis by (rule transactions_text_inj_aux)
qed

subsection \<open>The fingerprint determines the block\<close>

lemma bar_not_in_nat_to_string: "CHR ''|'' \<notin> set (nat_to_string n)"
  using nat_to_string_chars[of n] by auto

lemma amounts_apart_no_bar:
  "prints_amounts_apart rt txs \<Longrightarrow> tx \<in> set txs \<Longrightarrow> CHR ''|'' \<notin> set (amount_text rt tx)"
  unfolding prints_amounts_apart_def by auto

lemma ends_with_bar:
  assumes "U @ [c] = V @ us" and "us \<noteq> []"
  shows "\<exists>Z. us = Z @ [c]"
proof -
  from assms(2) have "us = butlast us @ [last us]" by simp
  moreover from assms have "last us = c" by (metis last_appendR last_snoc)
  ultimately show ?thesis by metis
qed

lemma fingerprint_inj:
  assumes "list_all standard_transaction (transactions b1 @ transactions b2)"
    and "prints_amounts_apart rt (transactions b1 @ transactions b2)"
  shows "(toHashString rt b1 = toHashString rt b2)
       = (previousHash b1 = previousHash b2 \<and> timestamp b1 = timestamp b2
          \<and> transactions b1 = transactions b2 \<and> nonce b1 = nonce b2)"
proof
  assume "previousHash b1 = previousHash b2 \<and> timestamp b1 = timestamp b2
          \<and> transactions b1 = transactions b2 \<and> nonce b1 = nonce b2"
  then show "toHashString rt b1 = toHashString rt b2" by (simp add: toHashString_def)
next
  assume eq: "toHashString rt b1 = toHashString rt b2"
  let ?J1 = "json_transactions rt (transactions b1)" and ?J2 = "json_transactions rt (transactions b2)"
  let ?U1 = "previousHash b1 @ CHR ''|'' # nat_to_string (timestamp b1)"
  let ?U2 = "previousHash b2 @ CHR ''|'' # nat_to_string (timestamp b2)"
  have std: "\<forall>tx\<in>set (transactions b1 @ transactions b2). standard_transaction tx"
    using assms(1) by (simp add: list_all_iff)
  have std1: "\<forall>tx\<in>set (transactions b1). standard_transaction tx \<and> CHR ''|'' \<notin> set (amount_text rt tx)"
    and std2: "\<forall>tx\<in>set (transactions b2). standard_transaction tx \<and> CHR ''|'' \<notin> set (amount_text rt tx)"
    using std amounts_apart_no_bar[OF assms(2)] by auto
  from eq have "((?U1 @ [CHR ''|'']) @ ?J1) @ CHR ''|'' # nat_to_string (nonce b1)
              = ((?U2 @ [CHR ''|'']) @ ?J2) @ CHR ''|'' # nat_to_string (nonce b2)"
    by (simp add: toHashString_def)
  from last_separator[OF this bar_not_in_nat_to_string bar_not_in_nat_to_string]
  have body: "(?U1 @ [CHR ''|'']) @ ?J1 = (?U2 @ [CHR ''|'']) @ ?J2"
    and n: "nat_to_string (nonce b1) = nat_to_string (nonce b2)" by blast+
  from append_eq_append_conv2[THEN iffD1, OF body] obtain us where us: "(?U1 @ [CHR ''|''] = (?U2 @ [CHR ''|'']) @ us \<and> us @ ?J1 = ?J2)
      \<or> ((?U1 @ [CHR ''|'']) @ us = ?U2 @ [CHR ''|''] \<and> ?J1 = us @ ?J2)"
    by blast
  have "us = []"
  proof (rule ccontr)
    assume ne: "us \<noteq> []"
    from us show False
    proof
      assume a: "?U1 @ [CHR ''|''] = (?U2 @ [CHR ''|'']) @ us \<and> us @ ?J1 = ?J2"
      with ends_with_bar[OF _ ne] obtain Z where "us = Z @ [CHR ''|'']" by blast
      with a have "?J2 = Z @ CHR ''|'' # ?J1" by simp
      with transactions_not_after_bar[of "transactions b2" rt "transactions b1" Z] std1 std2
      show False by blast
    next
      assume a: "(?U1 @ [CHR ''|'']) @ us = ?U2 @ [CHR ''|''] \<and> ?J1 = us @ ?J2"
      then have "?U2 @ [CHR ''|''] = (?U1 @ [CHR ''|'']) @ us" by simp
      with ends_with_bar[OF _ ne] obtain Z where "us = Z @ [CHR ''|'']" by blast
      with a have "?J1 = Z @ CHR ''|'' # ?J2" by simp
      with transactions_not_after_bar[of "transactions b1" rt "transactions b2" Z] std1 std2
      show False by blast
    qed
  qed
  with us have j: "?J1 = ?J2" and u: "?U1 = ?U2" by auto
  from last_separator[OF u bar_not_in_nat_to_string bar_not_in_nat_to_string]
  have p: "previousHash b1 = previousHash b2" and t: "nat_to_string (timestamp b1) = nat_to_string (timestamp b2)"
    by blast+
  from transactions_text_inj[OF std assms(2) j] have "transactions b1 = transactions b2" .
  with p nat_to_string_inj[OF t] nat_to_string_inj[OF n]
  show "previousHash b1 = previousHash b2 \<and> timestamp b1 = timestamp b2
          \<and> transactions b1 = transactions b2 \<and> nonce b1 = nonce b2" by simp
qed

lemma example_amount_text:
  "amount_text example_runtime plain_transfer = ''10''" "amount_text example_runtime return_transfer = ''4''"
  by (simp_all add: amount_text_def plain_transfer_def return_transfer_def example_runtime_def
      nat_to_string_digit nat_to_string_two_digits digit_char_def)

text \<open>
  C8, as the code has it. \<^verbatim>\<open>toHashString\<close> is a function of the previousHash, the
  timestamp, the transaction list and the nonce: equal fields give the same text. For two
  blocks whose transactions have strings for \<open>from\<close> and \<open>to\<close> and finite amounts, which
  the runtime prints apart, the converse holds too: blocks that differ in timestamp,
  previousHash, transaction list or nonce have different fingerprints.
\<close>

theorem fingerprint_determines_fields:
  "(previousHash b1 = previousHash b2 \<and> timestamp b1 = timestamp b2
      \<and> transactions b1 = transactions b2 \<and> nonce b1 = nonce b2
     \<longrightarrow> toHashString rt b1 = toHashString rt b2)
   \<and> (list_all standard_transaction (transactions b1 @ transactions b2)
      \<and> prints_amounts_apart rt (transactions b1 @ transactions b2)
      \<and> toHashString rt b1 = toHashString rt b2
     \<longrightarrow> previousHash b1 = previousHash b2 \<and> timestamp b1 = timestamp b2
         \<and> transactions b1 = transactions b2 \<and> nonce b1 = nonce b2)"
proof (intro conjI impI)
  assume "previousHash b1 = previousHash b2 \<and> timestamp b1 = timestamp b2
      \<and> transactions b1 = transactions b2 \<and> nonce b1 = nonce b2"
  then show "toHashString rt b1 = toHashString rt b2" by (simp add: toHashString_def)
next
  assume a: "list_all standard_transaction (transactions b1 @ transactions b2)
      \<and> prints_amounts_apart rt (transactions b1 @ transactions b2)
      \<and> toHashString rt b1 = toHashString rt b2"
  then have "previousHash b1 = previousHash b2 \<and> timestamp b1 = timestamp b2
         \<and> transactions b1 = transactions b2 \<and> nonce b1 = nonce b2"
    using fingerprint_inj[of b1 b2 rt] by blast
  then show "previousHash b1 = previousHash b2" "timestamp b1 = timestamp b2"
    "transactions b1 = transactions b2" "nonce b1 = nonce b2" by blast+
qed

text \<open>
  Writing a hash into a block leaves its fingerprint as it was; two blocks with the same
  two transfers and different timestamps have different fingerprints.
\<close>

theorem fingerprint_determines_fields_witness:
  "toHashString example_runtime (transfer_block\<lparr>hash := ''00ab''\<rparr>) = toHashString example_runtime transfer_block
   \<and> list_all standard_transaction (transactions transfer_block @ transactions later_block)
   \<and> prints_amounts_apart example_runtime (transactions transfer_block @ transactions later_block)
   \<and> timestamp transfer_block \<noteq> timestamp later_block
   \<and> toHashString example_runtime transfer_block \<noteq> toHashString example_runtime later_block"
proof -
  have s: "list_all standard_transaction (transactions transfer_block @ transactions later_block)"
    by (simp add: transfer_block_def later_block_def new_Block_def standard_transaction_def
        plain_transfer_def return_transfer_def)
  have a: "amount plain_transfer \<noteq> amount return_transfer"
    by (simp add: plain_transfer_def return_transfer_def)
  have p: "prints_amounts_apart example_runtime (transactions transfer_block @ transactions later_block)"
    using a by (simp add: prints_amounts_apart_def transfer_block_def later_block_def new_Block_def
        example_amount_text)
  have t: "timestamp transfer_block \<noteq> timestamp later_block"
    by (simp add: transfer_block_def later_block_def new_Block_def)
  have 1: "toHashString example_runtime (transfer_block\<lparr>hash := ''00ab''\<rparr>)
      = toHashString example_runtime transfer_block"
    using fingerprint_determines_fields[of "transfer_block\<lparr>hash := ''00ab''\<rparr>" transfer_block example_runtime]
    by simp
  have 2: "toHashString example_runtime transfer_block \<noteq> toHashString example_runtime later_block"
    using fingerprint_determines_fields[of transfer_block later_block example_runtime] s p t by blast
  from 1 2 s p t show ?thesis by simp
qed

text \<open>
  C8 as stated holds of every pair of blocks. \<^verbatim>\<open>JSON.stringify\<close> writes \<open>Infinity\<close> and
  \<open>-Infinity\<close> both as \<^verbatim>\<open>null\<close>, and \<^verbatim>\<open>createTransaction\<close> accepts both as amounts: two
  blocks that differ in their transaction lists have the same fingerprint.
\<close>

theorem infinities_share_a_fingerprint_counterexample:
  "transactions lossy_block \<noteq> transactions lossy_twin
   \<and> previousHash lossy_block = previousHash lossy_twin
   \<and> timestamp lossy_block = timestamp lossy_twin
   \<and> nonce lossy_block = nonce lossy_twin
   \<and> toHashString example_runtime lossy_block = toHashString example_runtime lossy_twin"
  by (simp add: lossy_block_def lossy_twin_def new_Block_def infinite_transfer_def toHashString_def
      json_transactions_def json_transaction_def json_property_def)

end
